theory Spec2Isabelle
  imports Main "HOL-Library.Sublist" "HOL-Library.AList" "HOL-Library.Word"
begin

unbundle bit_operations_syntax

section \<open>Strings\<close>

text \<open>
  A Python string is modelled by the list of the bytes of its UTF-8 encoding: one string
  is a prefix of another exactly when its bytes are, and the empty string has no bytes.
  \<open>startswith s p\<close> is \<open>s.startswith(p)\<close>. The case folding \<open>str.lower\<close> follows the
  Unicode tables; every operation that calls it takes it as its first parameter \<open>lower\<close>.
\<close>

definition startswith :: "string \<Rightarrow> string \<Rightarrow> bool" where
  "startswith s p = prefix p s"

text \<open>\<open>s.rstrip(cs)\<close>: drop the trailing characters that belong to \<open>cs\<close>.\<close>

definition rstrip_chars :: "string \<Rightarrow> string \<Rightarrow> string" where
  "rstrip_chars cs s = rev (dropWhile (\<lambda>c. c \<in> set cs) (rev s))"

section \<open>Calendar values of the \<open>datetime\<close> library\<close>

text \<open>
  A \<open>datetime.date\<close> is the triple (year, month, day); Python orders dates as it orders
  these triples. A \<open>datetime.datetime\<close> carries the time of day as well.
  \<open>datetime.datetime.fromtimestamp\<close> depends on the time zone of the machine and is a
  parameter \<open>clock\<close> of every operation that reads it.
\<close>

type_synonym date = "nat \<times> nat \<times> nat"

definition date_less :: "date \<Rightarrow> date \<Rightarrow> bool" where
  "date_less a b =
     (case a of (y1, m1, d1) \<Rightarrow> case b of (y2, m2, d2) \<Rightarrow>
        y1 < y2 \<or> (y1 = y2 \<and> (m1 < m2 \<or> (m1 = m2 \<and> d1 < d2))))"

definition date_le :: "date \<Rightarrow> date \<Rightarrow> bool" where
  "date_le a b = (a = b \<or> date_less a b)"

record datetime =
  dt_year :: nat
  dt_month :: nat
  dt_day :: nat
  dt_hour :: nat
  dt_minute :: nat
  dt_second :: nat

text \<open>\<open>dt.date()\<close>.\<close>

definition date_of :: "datetime \<Rightarrow> date" where
  "date_of dt = (dt_year dt, dt_month dt, dt_day dt)"

text \<open>Decimal rendering of a number (\<open>%d\<close>), and the two-digit fields of \<open>strftime\<close>.\<close>

definition digit_char :: "nat \<Rightarrow> char" where
  "digit_char n = char_of (48 + n)"

fun dec :: "nat \<Rightarrow> string" where
  "dec n = (if n < 10 then [digit_char n] else dec (n div 10) @ [digit_char (n mod 10)])"

declare dec.simps [simp del]

definition pad2 :: "nat \<Rightarrow> string" where
  "pad2 n = (if n < 10 then CHR ''0'' # dec n else dec n)"

text \<open>\<open>ts.strftime('%m/%d/%Y %H:%M:%S')\<close>.\<close>

definition strftime :: "datetime \<Rightarrow> string" where
  "strftime dt =
     pad2 (dt_month dt) @ ''/'' @ pad2 (dt_day dt) @ ''/'' @ dec (dt_year dt) @ '' '' @
     pad2 (dt_hour dt) @ '':'' @ pad2 (dt_minute dt) @ '':'' @ pad2 (dt_second dt)"

text \<open>
  The broken-down time that a correct \<open>fromtimestamp\<close> produces: fields in their
  calendar ranges and a four-digit year.
\<close>

definition valid_datetime :: "datetime \<Rightarrow> bool" where
  "valid_datetime dt \<longleftrightarrow>
     1000 \<le> dt_year dt \<and> dt_year dt \<le> 9999 \<and> 1 \<le> dt_month dt \<and> dt_month dt \<le> 12 \<and>
     1 \<le> dt_day dt \<and> dt_day dt \<le> 31 \<and> dt_hour dt < 24 \<and> dt_minute dt < 60 \<and>
     dt_second dt < 60"

definition is_digit :: "char \<Rightarrow> bool" where
  "is_digit c = (let n = (of_char c :: nat) in 48 \<le> n \<and> n \<le> 57)"

text \<open>The shape \<open>MM/DD/YYYY HH:MM:SS\<close>.\<close>

definition is_mdy_hms :: "string \<Rightarrow> bool" where
  "is_mdy_hms s =
     (case s of
        [m1, m2, s1, d1, d2, s2, y1, y2, y3, y4, sp, h1, h2, c1, n1, n2, c2, e1, e2] \<Rightarrow>
          list_all is_digit [m1, m2, d1, d2, y1, y2, y3, y4, h1, h2, n1, n2, e1, e2] \<and>
          s1 = CHR ''/'' \<and> s2 = CHR ''/'' \<and> sp = CHR '' '' \<and> c1 = CHR '':'' \<and> c2 = CHR '':''
      | _ \<Rightarrow> False)"

text \<open>
  The clock of a machine whose local time is UTC, for the times from 1969-01-01 on: the
  year is found by stepping over whole years, the month by stepping over the months of
  that year. \<open>year_of y d\<close> is the year and the day within it that lie \<open>d\<close> days after
  the first of January of \<open>y\<close>.
\<close>

definition is_leap :: "int \<Rightarrow> bool" where
  "is_leap y = (y mod 4 = 0 \<and> (y mod 100 \<noteq> 0 \<or> y mod 400 = 0))"

definition year_length :: "int \<Rightarrow> int" where
  "year_length y = (if is_leap y then 366 else 365)"

function year_of :: "int \<Rightarrow> int \<Rightarrow> int \<times> int" where
  "year_of y d = (if d < year_length y then (y, d) else year_of (y + 1) (d - year_length y))"
  by pat_completeness auto
termination
  by (relation "measure (\<lambda>(y, d). nat d)") (auto simp: year_length_def split: if_splits)

declare year_of.simps [simp del]

definition month_lengths :: "int \<Rightarrow> int list" where
  "month_lengths y = [31, if is_leap y then 29 else 28, 31, 30, 31, 30, 31, 31, 30, 31, 30, 31]"

fun month_of :: "int list \<Rightarrow> int \<Rightarrow> int \<Rightarrow> int \<times> int" where
  "month_of [] m d = (m, d + 1)"
| "month_of (l # ls) m d = (if d < l then (m, d + 1) else month_of ls (m + 1) (d - l))"

definition utc_clock :: "int \<Rightarrow> datetime" where
  "utc_clock t =
     (let days = t div 86400 + 365; secs = t mod 86400 in
      case year_of 1969 days of (y, doy) \<Rightarrow>
      case month_of (month_lengths y) 1 doy of (m, d) \<Rightarrow>
        \<lparr>dt_year = nat y, dt_month = nat m, dt_day = nat d, dt_hour = nat (secs div 3600),
         dt_minute = nat (secs mod 3600 div 60), dt_second = nat (secs mod 60)\<rparr>)"

text \<open>
  \<open>datetime.datetime.fromtimestamp\<close> on a machine in any time zone: the local time is the
  UTC time moved by the offset that the zone has at that instant, and an offset is
  strictly less than one day in either direction.
\<close>

typedef utcoffset = "{s :: int. - 86400 < s \<and> s < 86400}"
  by (rule exI [of _ 0]) simp

definition fromtimestamp :: "(int \<Rightarrow> utcoffset) \<Rightarrow> int \<Rightarrow> datetime" where
  "fromtimestamp zone t = utc_clock (t + Rep_utcoffset (zone t))"

definition utc_zone :: "int \<Rightarrow> utcoffset" where
  "utc_zone t = Abs_utcoffset 0"

section \<open>The remote listing\<close>

text \<open>
  An entry of a listing (\<open>paramiko.SFTPAttributes\<close>): its name, its mode bits and its
  modification time in seconds, which the protocol carries as an unsigned 32-bit number. \<open>S_ISREG\<close> and \<open>S_ISDIR\<close> test the file-type bits
  (\<open>S_IFMT = 0o170000\<close>, \<open>S_IFREG = 0o100000\<close>, \<open>S_IFDIR = 0o040000\<close>).
\<close>

record entry =
  filename :: string
  st_mode :: "32 word"
  st_mtime :: "32 word"

definition S_ISREG :: "32 word \<Rightarrow> bool" where
  "S_ISREG m = (m AND 0xF000 = 0x8000)"

definition S_ISDIR :: "32 word \<Rightarrow> bool" where
  "S_ISDIR m = (m AND 0xF000 = 0x4000)"

text \<open>
  What \<open>sftp.listdir_attr(path)\<close> does on the server: it returns the entries, raises
  \<open>FileNotFoundError\<close>, or raises another exception with a message. The connector holds
  such a session once \<open>connect\<close> has succeeded and \<open>None\<close> before.
\<close>

datatype listdir = Entries "entry list" | FileNotFound | Failure string

type_synonym session = "string \<Rightarrow> listdir"

datatype error = RuntimeError string

definition list_files_in_folder :: "session option \<Rightarrow> string \<Rightarrow> error + entry list" where
  "list_files_in_folder sftp remote_folder =
     (case sftp of
        None \<Rightarrow> Inl (RuntimeError ''SFTP session has not been established. Call connect() first.'')
      | Some ls \<Rightarrow>
          (case ls remote_folder of
             Entries es \<Rightarrow> Inr es
           | FileNotFound \<Rightarrow> Inr []
           | Failure exc \<Rightarrow>
               Inl (RuntimeError (''Error listing files in '' @ remote_folder @ '': '' @ exc))))"

section \<open>Candidate collection\<close>

text \<open>\<open>any(name.lower().startswith(s) for s in lowered)\<close>.\<close>

definition matches_any :: "(string \<Rightarrow> string) \<Rightarrow> string list \<Rightarrow> entry \<Rightarrow> bool" where
  "matches_any lower lowered e = list_ex (\<lambda>s. startswith (lower (filename e)) s) lowered"

text \<open>\<open>[s.lower() for s in (name_filters or []) if s]\<close>.\<close>

definition lowered_filters :: "(string \<Rightarrow> string) \<Rightarrow> string list option \<Rightarrow> string list" where
  "lowered_filters lower name_filters =
     map lower (filter (\<lambda>s. s \<noteq> []) (case name_filters of None \<Rightarrow> [] | Some fs \<Rightarrow> fs))"

definition subpath :: "string \<Rightarrow> entry \<Rightarrow> string" where
  "subpath remote_folder d = rstrip_chars ''/'' remote_folder @ ''/'' @ filename d"

text \<open>
  The loop over the matched subdirectories: a subfolder whose listing raises is skipped,
  the regular files of every other one are appended.
\<close>

fun collect_subfolders :: "session option \<Rightarrow> string \<Rightarrow> entry list \<Rightarrow> entry list" where
  "collect_subfolders sftp remote_folder [] = []"
| "collect_subfolders sftp remote_folder (d # ds) =
     (case list_files_in_folder sftp (subpath remote_folder d) of
        Inl _ \<Rightarrow> collect_subfolders sftp remote_folder ds
      | Inr subentries \<Rightarrow>
          filter (\<lambda>e. S_ISREG (st_mode e)) subentries @ collect_subfolders sftp remote_folder ds)"

definition collect_candidate_files ::
  "(string \<Rightarrow> string) \<Rightarrow> session option \<Rightarrow> string \<Rightarrow> string list option \<Rightarrow> error + entry list" where
  "collect_candidate_files lower sftp remote_folder name_filters =
     (case list_files_in_folder sftp remote_folder of
        Inl e \<Rightarrow> Inl e
      | Inr entries \<Rightarrow>
          (let files0 = filter (\<lambda>e. S_ISREG (st_mode e)) entries;
               lowered = lowered_filters lower name_filters;
               files = (if lowered \<noteq> [] \<and> files0 \<noteq> []
                        then filter (matches_any lower lowered) files0 else files0)
           in if files \<noteq> [] then Inr files
              else if lowered \<noteq> [] then
                (let dirs = filter (\<lambda>e. S_ISDIR (st_mode e)) entries;
                     matched_dirs = filter (matches_any lower lowered) dirs
                 in Inr (collect_subfolders sftp remote_folder matched_dirs))
              else Inr []))"

section \<open>Selection\<close>

text \<open>
  \<open>max(files, key=lambda f: f.st_mtime)\<close> keeps the first entry that no later one
  exceeds: the running best is replaced only by a strictly greater key.
\<close>

fun max_from :: "entry \<Rightarrow> entry list \<Rightarrow> entry" where
  "max_from best [] = best"
| "max_from best (f # fs) =
     (if st_mtime best < st_mtime f then max_from f fs else max_from best fs)"

type_synonym file_info = "string option \<times> string option"

text \<open>The tail shared by the selection methods: nothing, or the latest file and its time.\<close>

definition latest_of :: "(int \<Rightarrow> datetime) \<Rightarrow> entry list \<Rightarrow> file_info" where
  "latest_of clock files =
     (case files of
        [] \<Rightarrow> (None, None)
      | f # fs \<Rightarrow>
          (let latest_file = max_from f fs; ts = clock (uint (st_mtime latest_file))
           in (Some (filename latest_file), Some (strftime ts))))"

definition to_local_date :: "(int \<Rightarrow> datetime) \<Rightarrow> entry \<Rightarrow> date" where
  "to_local_date clock attr = date_of (clock (uint (st_mtime attr)))"

definition get_latest_file_info ::
  "(string \<Rightarrow> string) \<Rightarrow> (int \<Rightarrow> datetime) \<Rightarrow> session option \<Rightarrow> string \<Rightarrow> string list option \<Rightarrow> error + file_info" where
  "get_latest_file_info lower clock sftp remote_folder name_filters =
     (case collect_candidate_files lower sftp remote_folder name_filters of
        Inl e \<Rightarrow> Inl e
      | Inr files \<Rightarrow> Inr (latest_of clock files))"

definition get_latest_file_info_before_date ::
  "(string \<Rightarrow> string) \<Rightarrow> (int \<Rightarrow> datetime) \<Rightarrow> session option \<Rightarrow> string \<Rightarrow> date \<Rightarrow> string list option \<Rightarrow>
   error + file_info" where
  "get_latest_file_info_before_date lower clock sftp remote_folder before_date name_filters =
     (case collect_candidate_files lower sftp remote_folder name_filters of
        Inl e \<Rightarrow> Inl e
      | Inr files \<Rightarrow>
          Inr (latest_of clock
                 (filter (\<lambda>f. date_less (to_local_date clock f) before_date) files)))"

definition get_latest_file_info_on_date ::
  "(string \<Rightarrow> string) \<Rightarrow> (int \<Rightarrow> datetime) \<Rightarrow> session option \<Rightarrow> string \<Rightarrow> date \<Rightarrow> string list option \<Rightarrow>
   error + file_info" where
  "get_latest_file_info_on_date lower clock sftp remote_folder on_date name_filters =
     (case collect_candidate_files lower sftp remote_folder name_filters of
        Inl e \<Rightarrow> Inl e
      | Inr files \<Rightarrow>
          Inr (latest_of clock (filter (\<lambda>f. to_local_date clock f = on_date) files)))"

text \<open>
  \<open>get_latest_files_per_prefix\<close>: the result dictionary is an association list in
  insertion order; assigning to a key that is already present replaces its value in place.
\<close>

fun per_prefix_loop ::
  "(string \<Rightarrow> string) \<Rightarrow> (int \<Rightarrow> datetime) \<Rightarrow> session option \<Rightarrow> string \<Rightarrow> date option \<Rightarrow> string list \<Rightarrow>
   (string \<times> file_info) list \<Rightarrow> error + (string \<times> file_info) list" where
  "per_prefix_loop lower clock sftp remote_folder today [] result = Inr result"
| "per_prefix_loop lower clock sftp remote_folder today (p # ps) result =
     (case collect_candidate_files lower sftp remote_folder (Some [p]) of
        Inl e \<Rightarrow> Inl e
      | Inr files \<Rightarrow>
          (let files' = (case today of
                           None \<Rightarrow> files
                         | Some d \<Rightarrow> filter (\<lambda>f. to_local_date clock f = d) files)
           in per_prefix_loop lower clock sftp remote_folder today ps
                (AList.update p (latest_of clock files') result)))"

definition get_latest_files_per_prefix ::
  "(string \<Rightarrow> string) \<Rightarrow> (int \<Rightarrow> datetime) \<Rightarrow> session option \<Rightarrow> string \<Rightarrow> string list \<Rightarrow> date option \<Rightarrow>
   error + (string \<times> file_info) list" where
  "get_latest_files_per_prefix lower clock sftp remote_folder pfxs on_date =
     (let lowered = map lower (filter (\<lambda>p. p \<noteq> []) pfxs)
      in per_prefix_loop lower clock sftp remote_folder on_date lowered [])"

section \<open>Notions used to state the properties of the selection\<close>

text \<open>The candidates that no candidate of the list exceeds in modification time.\<close>

definition is_latest :: "entry list \<Rightarrow> entry \<Rightarrow> bool" where
  "is_latest files f = list_all (\<lambda>g. st_mtime g \<le> st_mtime f) files"

text \<open>
  A result pair is either empty on both sides or a name with a time string of the shape
  \<open>MM/DD/YYYY HH:MM:SS\<close>.
\<close>

definition well_formed_info :: "file_info \<Rightarrow> bool" where
  "well_formed_info r =
     (case r of
        (None, None) \<Rightarrow> True
      | (Some n, Some t) \<Rightarrow> is_mdy_hms t
      | _ \<Rightarrow> False)"

text \<open>A result pair has both sides set or neither.\<close>

definition both_or_none :: "file_info \<Rightarrow> bool" where
  "both_or_none r =
     (case r of
        (None, None) \<Rightarrow> True
      | (Some n, Some t) \<Rightarrow> True
      | _ \<Rightarrow> False)"

text \<open>The entries a listing call yields, nothing when it fails.\<close>

definition entries_of :: "listdir \<Rightarrow> entry list" where
  "entries_of r = (case r of Entries es \<Rightarrow> es | _ \<Rightarrow> [])"

text \<open>
  \<open>name\<close> is a regular file directly inside a subdirectory of the folder whose own name
  starts, ignoring case, with one of the non-empty filters.
\<close>

definition from_matching_subfolder ::
  "(string \<Rightarrow> string) \<Rightarrow> session option \<Rightarrow> string \<Rightarrow> string list \<Rightarrow> string \<Rightarrow> bool" where
  "from_matching_subfolder lower sftp remote_folder fs name =
     (case list_files_in_folder sftp remote_folder of
        Inl _ \<Rightarrow> False
      | Inr entries \<Rightarrow>
          list_ex (\<lambda>d. S_ISDIR (st_mode d) \<and>
                 list_ex (\<lambda>s. s \<noteq> [] \<and> startswith (lower (filename d)) (lower s)) fs \<and>
                 (case list_files_in_folder sftp (subpath remote_folder d) of
                    Inl _ \<Rightarrow> False
                  | Inr sub \<Rightarrow> list_ex (\<lambda>f. S_ISREG (st_mode f) \<and> filename f = name) sub))
            entries)"

text \<open>No regular file of the folder itself starts, ignoring case, with a non-empty filter.\<close>

definition no_direct_match :: "(string \<Rightarrow> string) \<Rightarrow> session option \<Rightarrow> string \<Rightarrow> string list \<Rightarrow> bool" where
  "no_direct_match lower sftp remote_folder fs =
     (case list_files_in_folder sftp remote_folder of
        Inl _ \<Rightarrow> False
      | Inr entries \<Rightarrow>
          \<not> list_ex (\<lambda>e. S_ISREG (st_mode e) \<and>
                   list_ex (\<lambda>s. s \<noteq> [] \<and> startswith (lower (filename e)) (lower s)) fs)
              entries)"

text \<open>
  What holds of a returned name under the filters \<open>fs\<close>: it starts with one of them, or
  nothing in the folder matched and it comes from a subfolder of a matching name.
\<close>

definition name_allowed :: "(string \<Rightarrow> string) \<Rightarrow> session option \<Rightarrow> string \<Rightarrow> string list \<Rightarrow> string \<Rightarrow> bool" where
  "name_allowed lower sftp remote_folder fs name =
     (list_ex (\<lambda>s. startswith (lower name) (lower s)) fs \<or>
      (no_direct_match lower sftp remote_folder fs \<and>
       from_matching_subfolder lower sftp remote_folder fs name))"

text \<open>The selection for one filter alone, on a date when one is given.\<close>

definition single_filter_selection ::
  "(string \<Rightarrow> string) \<Rightarrow> (int \<Rightarrow> datetime) \<Rightarrow> session option \<Rightarrow> string \<Rightarrow> date option \<Rightarrow> string \<Rightarrow>
   error + file_info" where
  "single_filter_selection lower clock sftp remote_folder on_date p =
     (case on_date of
        None \<Rightarrow> get_latest_file_info lower clock sftp remote_folder (Some [p])
      | Some d \<Rightarrow> get_latest_file_info_on_date lower clock sftp remote_folder d (Some [p]))"

section \<open>Example servers\<close>

text \<open>
  The examples use ASCII names only, on which \<open>str.lower\<close> maps the letters A to Z to
  a to z and leaves every other byte.
\<close>

definition ascii_lower_char :: "char \<Rightarrow> char" where
  "ascii_lower_char c =
     (let n = (of_char c :: nat) in if 65 \<le> n \<and> n \<le> 90 then char_of (n + 32) else c)"

definition ascii_lower :: "string \<Rightarrow> string" where
  "ascii_lower s = map ascii_lower_char s"

text \<open>
  A folder \<open>/in\<close> with three regular files, two of them modified in the same second, and
  one directory; and the same server after an unrelated folder has appeared.
\<close>

definition in_listing :: "entry list" where
  "in_listing =
     [\<lparr>filename = ''old.csv'', st_mode = 0x81A4, st_mtime = 1760256000\<rparr>,
      \<lparr>filename = ''new.csv'', st_mode = 0x81A4, st_mtime = 1760434200\<rparr>,
      \<lparr>filename = ''New_copy.csv'', st_mode = 0x81A4, st_mtime = 1760434200\<rparr>,
      \<lparr>filename = ''archive'', st_mode = 0x41ED, st_mtime = 1760000000\<rparr>]"

definition flat_server :: session where
  "flat_server p = (if p = ''/in'' then Entries in_listing else FileNotFound)"

definition flat_server_later :: session where
  "flat_server_later p =
     (if p = ''/in'' then Entries in_listing
      else if p = ''/other'' then Entries [\<lparr>filename = ''x'', st_mode = 0x81A4, st_mtime = 5\<rparr>]
      else FileNotFound)"

text \<open>
  A folder \<open>/base\<close> that holds only the directory \<open>RevAI_Fleet\<close>, whose files do not
  carry the name of the directory.
\<close>

definition nested_server :: session where
  "nested_server p =
     (if p = ''/base'' then
        Entries [\<lparr>filename = ''RevAI_Fleet'', st_mode = 0x41ED, st_mtime = 1760000000\<rparr>]
      else if p = ''/base/RevAI_Fleet'' then
        Entries [\<lparr>filename = ''data.csv'', st_mode = 0x81A4, st_mtime = 1760434200\<rparr>]
      else FileNotFound)"

section \<open>The report rows of \<open>main.py\<close>\<close>

text \<open>
  A folder and an account as \<open>load_multiple_configs_from_file\<close> builds them: dictionaries
  whose optional keys are optional fields. A row of the report is the dictionary with the
  four columns of the sheet.
\<close>

record folder =
  label :: string
  path :: string
  filters :: "string list option"

record account =
  name :: string
  host :: "string option"
  port :: "int option"
  username :: "string option"
  password :: "string option"
  folders :: "folder list"

record row =
  Account_Name :: string
  Folder :: string
  Latest_File_Name :: string
  Latest_File_Date :: string









section \<open>The date arguments of \<open>main\<close>\<close>









section \<open>Example accounts and arguments\<close>

text \<open>
  An account with two folders whose server refuses the connection, and one with one folder
  on the example server.
\<close>

definition acme :: account where
  "acme = \<lparr>name = ''Acme'', host = Some ''sftp.acme.test'', port = Some 22,
            username = Some ''u'', password = Some ''p'',
            folders = [\<lparr>label = ''Inbound'', path = ''/in'', filters = Some []\<rparr>,
                       \<lparr>label = ''Outbound'', path = ''/out'', filters = Some []\<rparr>]\<rparr>"

definition globex :: account where
  "globex = \<lparr>name = ''Globex'', host = Some ''sftp.globex.test'', port = Some 22,
              username = Some ''u'', password = Some ''p'',
              folders = [\<lparr>label = ''Inbound'', path = ''/in'', filters = Some []\<rparr>]\<rparr>"



section \<open>The credentials file of \<open>config.py\<close>\<close>

text \<open>
  The operations of the standard library that follow the Unicode tables are parameters of
  the loader, gathered in one record: \<open>str.strip()\<close>, \<open>str.lower()\<close>,
  \<open>str.splitlines()\<close>, the removal of every occurrence of a pattern ignoring case
  (\<open>re.compile(re.escape(p), re.IGNORECASE).sub("", s)\<close>), \<open>s[0].upper() + s[1:]\<close>,
  the number read by \<open>int(re.search(r"(\d{2,5})", v).group(1))\<close> and the number read by
  \<open>int(re.findall(r"\d+", v)[0])\<close>, each \<open>None\<close> when nothing matches. What is
  decided by the ASCII characters \<open>- : # / ' "\<close> and the line feed is computed on the
  bytes.
\<close>

record textlib =
  str_strip :: "string \<Rightarrow> string"
  str_lower :: "string \<Rightarrow> string"
  str_splitlines :: "string \<Rightarrow> string list"
  sub_ignorecase :: "string \<Rightarrow> string \<Rightarrow> string"
  upper_first :: "string \<Rightarrow> string"
  search_port :: "string \<Rightarrow> int option"
  first_number :: "string \<Rightarrow> int option"

definition is_quote :: "char \<Rightarrow> bool" where
  "is_quote c = (c = CHR 0x27 \<or> c = CHR 0x22)"

definition endswith :: "string \<Rightarrow> string \<Rightarrow> bool" where
  "endswith s p = suffix p s"

text \<open>\<open>s.strip(cs)\<close> with an explicit set of characters.\<close>

definition strip_chars :: "string \<Rightarrow> string \<Rightarrow> string" where
  "strip_chars cs s = rstrip_chars cs (dropWhile (\<lambda>c. c \<in> set cs) s)"

text \<open>
  \<open>re.search(r"([\'\"])(.*?)\1", rv)\<close>, group 2: the text between the leftmost quote
  that is closed on the same line by the same quote and that closing quote.
\<close>

fun search_quoted :: "string \<Rightarrow> string option" where
  "search_quoted [] = None"
| "search_quoted (c # s) =
     (if is_quote c \<and> c \<in> set s \<and> CHR 0x0A \<notin> set (takeWhile (\<lambda>x. x \<noteq> c) s)
      then Some (takeWhile (\<lambda>x. x \<noteq> c) s)
      else search_quoted s)"

definition clean_value :: "textlib \<Rightarrow> string \<Rightarrow> string" where
  "clean_value lib raw_value =
     (let rv = str_strip lib raw_value in
      case search_quoted rv of
        Some g \<Rightarrow> str_strip lib g
      | None \<Rightarrow>
          (let v = str_strip lib (takeWhile (\<lambda>c. c \<noteq> CHR ''#'') rv);
               v' = (if (startswith v [CHR 0x22] \<and> endswith v [CHR 0x22]) \<or>
                        (startswith v [CHR 0x27] \<and> endswith v [CHR 0x27])
                     then butlast (tl v) else v)
           in str_strip lib v'))"

text \<open>\<open>_normalise_key\<close>: lower-case, then keep the letters a to z.\<close>

definition normalise_key :: "textlib \<Rightarrow> string \<Rightarrow> string" where
  "normalise_key lib raw_key =
     filter (\<lambda>c. 97 \<le> (of_char c :: nat) \<and> (of_char c :: nat) \<le> 122) (str_lower lib raw_key)"

definition derive_folder_label :: "textlib \<Rightarrow> string \<Rightarrow> string \<Rightarrow> string" where
  "derive_folder_label lib account_name raw_key =
     (let label0 = str_strip lib raw_key in
      if label0 = [] then ''Folder''
      else
        (let label1 = strip_chars '' _-:'' (sub_ignorecase lib account_name label0);
             label2 = (if label1 = [] then str_strip lib raw_key else label1);
             label3 = map (\<lambda>c. if c = CHR ''_'' \<or> c = CHR ''-'' then CHR '' '' else c) label2;
             label4 = (if label3 \<noteq> [] then upper_first lib label3 else label3)
         in if label4 \<noteq> [] then label4 else ''Folder''))"

text \<open>
  \<open>re.findall(r"'([^']*)'|\"([^\"]*)\"", value)\<close>: the texts between a quote and the next
  quote of the same kind, scanned from left to right; a quote that is never closed
  is passed over.
\<close>

function findall_quoted :: "string \<Rightarrow> string list" where
  "findall_quoted [] = []"
| "findall_quoted (c # s) =
     (if is_quote c \<and> c \<in> set s
      then takeWhile (\<lambda>x. x \<noteq> c) s # findall_quoted (tl (dropWhile (\<lambda>x. x \<noteq> c) s))
      else findall_quoted s)"
  by pat_completeness auto
termination
  by (relation "measure length")
    (auto simp: less_Suc_eq_le intro: order_trans [OF diff_le_self length_dropWhile_le])

definition parse_folder_value :: "textlib \<Rightarrow> string \<Rightarrow> string \<times> string list" where
  "parse_folder_value lib raw =
     (let v = str_strip lib raw;
          segments = filter (\<lambda>s. s \<noteq> []) (findall_quoted v);
          p = (case List.find (\<lambda>seg. startswith seg ''/'' \<or> CHR ''/'' \<in> set seg) segments of
                 Some seg \<Rightarrow> seg
               | None \<Rightarrow> if v \<noteq> [] then v else ''/'');
          fs = filter (\<lambda>seg. seg \<noteq> p \<and> seg \<noteq> []) segments
      in (if p \<noteq> [] then p else ''/'', fs))"

text \<open>
  The loop \<open>for f in extra_filters\<close> of a continuation line: \<open>existing\<close> is the set of
  the lower-cased filters seen so far, \<open>setdefault("filters", []).append(f)\<close> creates the
  list when the folder has none.
\<close>

fun append_new ::
  "(string \<Rightarrow> string) \<Rightarrow> string list \<Rightarrow> string set \<Rightarrow> string list option \<Rightarrow> string list option" where
  "append_new lower [] existing fo = fo"
| "append_new lower (f # extra) existing fo =
     (if lower f \<in> existing then append_new lower extra existing fo
      else append_new lower extra (insert (lower f) existing)
             (Some ((case fo of None \<Rightarrow> [] | Some fs \<Rightarrow> fs) @ [f])))"

definition add_extra_filters :: "textlib \<Rightarrow> string list \<Rightarrow> folder \<Rightarrow> folder" where
  "add_extra_filters lib extra_filters last_folder =
     (if extra_filters \<noteq> [] then
        (let existing = set (map (str_lower lib)
                          (case filters last_folder of None \<Rightarrow> [] | Some fs \<Rightarrow> fs))
         in last_folder\<lparr>filters := append_new (str_lower lib) extra_filters existing
                                      (filters last_folder)\<rparr>)
      else last_folder)"

text \<open>\<open>re.search(r"([a-zA-Z0-9.-]+)", value)\<close>: the first run of such characters.\<close>

definition is_host_char :: "char \<Rightarrow> bool" where
  "is_host_char c =
     (let n = (of_char c :: nat) in
      (97 \<le> n \<and> n \<le> 122) \<or> (65 \<le> n \<and> n \<le> 90) \<or> (48 \<le> n \<and> n \<le> 57) \<or> n = 46 \<or> n = 45)"

definition host_match :: "string \<Rightarrow> string option" where
  "host_match v =
     (let s = dropWhile (\<lambda>c. \<not> is_host_char c) v in
      if s = [] then None else Some (takeWhile is_host_char s))"

text \<open>
  The body of \<open>for line in lines[1:]\<close>. \<open>last_folder\<close> is the dictionary appended last to
  \<open>account["folders"]\<close>: it is \<open>None\<close> as long as the list is empty, and changing it
  changes the last element of the list.
\<close>

definition process_line :: "textlib \<Rightarrow> string \<Rightarrow> account \<Rightarrow> account" where
  "process_line lib line acct =
     (if startswith line ''--'' then acct
      else if CHR '':'' \<notin> set line then
        (if folders acct \<noteq> [] then
           acct\<lparr>folders := butlast (folders acct) @
                    [add_extra_filters lib (snd (parse_folder_value lib line)) (last (folders acct))]\<rparr>
         else acct)
      else
        (let raw_key = takeWhile (\<lambda>c. c \<noteq> CHR '':'') line;
             raw_value = tl (dropWhile (\<lambda>c. c \<noteq> CHR '':'') line);
             v = clean_value lib raw_value;
             key_norm = normalise_key lib raw_key
         in if key_norm \<in> {''host'', ''hosturl'', ''ftpurl'', ''url''} then
              (let acct1 = (case host_match v of None \<Rightarrow> acct | Some h \<Rightarrow> acct\<lparr>host := Some h\<rparr>)
               in case search_port lib v of None \<Rightarrow> acct1 | Some n \<Rightarrow> acct1\<lparr>port := Some n\<rparr>)
            else if key_norm = ''username'' then acct\<lparr>username := Some v\<rparr>
            else if key_norm = ''password'' then acct\<lparr>password := Some v\<rparr>
            else if key_norm = ''port'' then
              (case first_number lib v of None \<Rightarrow> acct | Some n \<Rightarrow> acct\<lparr>port := Some n\<rparr>)
            else if key_norm = ''folders'' then acct
            else if key_norm = ''folder'' then
              (case parse_folder_value lib v of
                 (p, fs) \<Rightarrow>
                   acct\<lparr>folders := folders acct @
                     [\<lparr>label = ''Folder'', path = (if p \<noteq> [] then p else ''/''),
                       filters = Some fs\<rparr>]\<rparr>)
            else if key_norm \<in> {''folders'', ''locations''} then acct
            else
              (let folder_label = derive_folder_label lib (name acct) raw_key in
               case parse_folder_value lib v of
                 (p, fs) \<Rightarrow>
                   acct\<lparr>folders := folders acct @
                     [\<lparr>label = folder_label, path = p, filters = Some fs\<rparr>]\<rparr>)))"

text \<open>The account of a block after the loop over its lines.\<close>

definition scan_lines :: "textlib \<Rightarrow> string \<Rightarrow> string list \<Rightarrow> account" where
  "scan_lines lib first rest =
     foldl (\<lambda>acct line. process_line lib line acct)
       \<lparr>name = first, host = None, port = None, username = None, password = None, folders = []\<rparr>
       rest"

text \<open>\<open>[line.strip() for line in block.splitlines() if line.strip()]\<close>.\<close>

definition block_lines :: "textlib \<Rightarrow> string \<Rightarrow> string list" where
  "block_lines lib block =
     map (str_strip lib) (filter (\<lambda>line. str_strip lib line \<noteq> []) (str_splitlines lib block))"

text \<open>
  What one block adds to \<open>configs\<close>: nothing when it has no line or lacks a host, a user
  name or a password, otherwise its account with the default port and the default folder.
\<close>

definition parse_block :: "textlib \<Rightarrow> string \<Rightarrow> account option" where
  "parse_block lib block =
     (case block_lines lib block of
        [] \<Rightarrow> None
      | first # rest \<Rightarrow>
          (let acct = scan_lines lib first rest;
               acct1 = (if port acct = None then acct\<lparr>port := Some 22\<rparr> else acct)
           in if host acct1 \<noteq> None \<and> username acct1 \<noteq> None \<and> password acct1 \<noteq> None then
                Some (if folders acct1 = []
                      then acct1\<lparr>folders := [\<lparr>label = ''Root'', path = ''/'', filters = None\<rparr>]\<rparr>
                      else acct1)
              else None))"

text \<open>
  \<open>re.split(r"-{5,}", content)\<close>: \<open>cur\<close> is the block read so far and \<open>n\<close> the number
  of hyphens just read; five or more of them end the block.
\<close>

fun re_split :: "string \<Rightarrow> nat \<Rightarrow> string \<Rightarrow> string list" where
  "re_split cur n [] = (if 5 \<le> n then [cur, []] else [cur @ replicate n CHR ''-''])"
| "re_split cur n (c # s) =
     (if c = CHR ''-'' then re_split cur (n + 1) s
      else if 5 \<le> n then cur # re_split [c] 0 s
      else re_split (cur @ replicate n CHR ''-'' @ [c]) 0 s)"

text \<open>\<open>load_multiple_configs_from_file\<close>, on the text of the file.\<close>

definition load_multiple_configs_from_file :: "textlib \<Rightarrow> string \<Rightarrow> account list" where
  "load_multiple_configs_from_file lib content =
     foldl (\<lambda>configs block.
              case parse_block lib block of None \<Rightarrow> configs | Some acct \<Rightarrow> configs @ [acct])
       [] (re_split [] 0 content)"

section \<open>Notions used to state the properties of the loader\<close>

text \<open>
  The quoted texts of a continuation line that become filters: the non-empty ones, except
  the first that contains a slash and every repetition of it.
\<close>

definition quoted_segments :: "string \<Rightarrow> string list" where
  "quoted_segments v = filter (\<lambda>s. s \<noteq> []) (findall_quoted v)"

definition extra_segments :: "string \<Rightarrow> string list" where
  "extra_segments v =
     (case List.find (\<lambda>seg. CHR ''/'' \<in> set seg) (quoted_segments v) of
        None \<Rightarrow> quoted_segments v
      | Some p \<Rightarrow> filter (\<lambda>seg. seg \<noteq> p) (quoted_segments v))"

definition filters_of :: "folder \<Rightarrow> string list" where
  "filters_of f = (case filters f of None \<Rightarrow> [] | Some fs \<Rightarrow> fs)"

section \<open>An example library and an example file\<close>

text \<open>The library on ASCII text, where its operations are decided by single bytes.\<close>

definition ascii_space :: "char \<Rightarrow> bool" where
  "ascii_space c = (let n = (of_char c :: nat) in n = 32 \<or> (9 \<le> n \<and> n \<le> 13) \<or> (28 \<le> n \<and> n \<le> 31))"

definition ascii_strip :: "string \<Rightarrow> string" where
  "ascii_strip s = rev (dropWhile ascii_space (rev (dropWhile ascii_space s)))"

fun ascii_splitlines :: "string \<Rightarrow> string \<Rightarrow> string list" where
  "ascii_splitlines cur [] = (if cur = [] then [] else [cur])"
| "ascii_splitlines cur (c # s) =
     (if c = CHR 0x0A then cur # ascii_splitlines [] s else ascii_splitlines (cur @ [c]) s)"

fun ascii_remove :: "nat \<Rightarrow> string \<Rightarrow> string \<Rightarrow> string" where
  "ascii_remove k p [] = []"
| "ascii_remove k p (c # s) =
     (if 0 < k then ascii_remove (k - 1) p s
      else if p \<noteq> [] \<and> prefix (ascii_lower p) (ascii_lower (c # s))
      then ascii_remove (length p - 1) p s
      else c # ascii_remove 0 p s)"

definition ascii_upper_first :: "string \<Rightarrow> string" where
  "ascii_upper_first s =
     (case s of
        [] \<Rightarrow> []
      | c # cs \<Rightarrow>
          (let n = (of_char c :: nat) in
           (if 97 \<le> n \<and> n \<le> 122 then char_of (n - 32) else c) # cs))"

definition digits_value :: "string \<Rightarrow> int" where
  "digits_value ds = foldl (\<lambda>a c. 10 * a + (int (of_char c) - 48)) 0 ds"

fun ascii_search_port :: "string \<Rightarrow> int option" where
  "ascii_search_port [] = None"
| "ascii_search_port (c # s) =
     (if is_digit c \<and> (case s of [] \<Rightarrow> False | d # _ \<Rightarrow> is_digit d)
      then Some (digits_value (take 5 (takeWhile is_digit (c # s))))
      else ascii_search_port s)"

definition ascii_first_number :: "string \<Rightarrow> int option" where
  "ascii_first_number v =
     (let s = dropWhile (\<lambda>c. \<not> is_digit c) v in
      if s = [] then None else Some (digits_value (takeWhile is_digit s)))"

definition ascii_lib :: textlib where
  "ascii_lib =
     \<lparr>str_strip = ascii_strip, str_lower = ascii_lower, str_splitlines = ascii_splitlines [],
      sub_ignorecase = ascii_remove 0, upper_first = ascii_upper_first,
      search_port = ascii_search_port, first_number = ascii_first_number\<rparr>"

text \<open>
  A file with three blocks: an account with two folders and a continuation line, an
  account without folders, and a block without a password.
\<close>

definition example_content :: string where
  "example_content =
     ''Acme'' @ [CHR 0x0A] @
     ''Host: sftp.acme.test'' @ [CHR 0x0A] @
     ''Username: u1'' @ [CHR 0x0A] @
     ''Password: p1'' @ [CHR 0x0A] @
     ''Folder: '' @ [CHR 0x27] @ ''/in'' @ [CHR 0x27] @ '' files '' @
        [CHR 0x22] @ ''Daily'' @ [CHR 0x22] @ [CHR 0x0A] @
     [CHR 0x22] @ ''weekly'' @ [CHR 0x22] @ '', '' @ [CHR 0x22] @ ''DAILY'' @ [CHR 0x22] @
        [CHR 0x0A] @
     ''----------'' @ [CHR 0x0A] @
     ''Globex'' @ [CHR 0x0A] @
     ''Host: sftp.globex.test'' @ [CHR 0x0A] @
     ''Username: u2'' @ [CHR 0x0A] @
     ''Password: p2'' @ [CHR 0x0A] @
     ''-----'' @ [CHR 0x0A] @
     ''Initech'' @ [CHR 0x0A] @
     ''Host: sftp.initech.test'' @ [CHR 0x0A] @
     ''Username: u3'' @ [CHR 0x0A]"

definition inbound :: folder where
  "inbound = \<lparr>label = ''Inbound'', path = ''/in'', filters = Some [''Daily'']\<rparr>"

definition acme_scanned :: account where
  "acme_scanned = \<lparr>name = ''Acme'', host = Some ''sftp.acme.test'', port = None,
                    username = Some ''u1'', password = Some ''p1'', folders = [inbound]\<rparr>"

text \<open>What the loader returns for the example file.\<close>

definition acme_loaded :: account where
  "acme_loaded = \<lparr>name = ''Acme'', host = Some ''sftp.acme.test'', port = Some 22,
                   username = Some ''u1'', password = Some ''p1'',
                   folders = [\<lparr>label = ''Folder'', path = ''/in'',
                               filters = Some [''weekly'', ''DAILY'']\<rparr>]\<rparr>"

definition globex_loaded :: account where
  "globex_loaded = \<lparr>name = ''Globex'', host = Some ''sftp.globex.test'', port = Some 22,
                     username = Some ''u2'', password = Some ''p2'',
                     folders = [\<lparr>label = ''Root'', path = ''/'', filters = None\<rparr>]\<rparr>"

section \<open>Properties\<close>


lemma ascii_lower_char_idem: "ascii_lower_char (ascii_lower_char c) = ascii_lower_char c"
  by (simp add: ascii_lower_char_def Let_def)

lemma ascii_lower_idem: "ascii_lower (ascii_lower s) = ascii_lower s"
  by (simp add: ascii_lower_def ascii_lower_char_idem)

lemma ascii_lower_Nil_iff: "ascii_lower s = [] \<longleftrightarrow> s = []"
  by (simp add: ascii_lower_def)

lemma ascii_lower_nonempty: "s \<noteq> [] \<Longrightarrow> ascii_lower s \<noteq> []"
  by (simp add: ascii_lower_def)

lemma dec_lt10: "n < 10 \<Longrightarrow> dec n = [digit_char n]"
  by (simp add: dec.simps)

lemma dec_lt100: "10 \<le> n \<Longrightarrow> n < 100 \<Longrightarrow> dec n = [digit_char (n div 10), digit_char (n mod 10)]"
  by (subst dec.simps) (simp add: dec_lt10)

lemma zero_digit: "CHR ''0'' = digit_char 0"
  by (simp add: digit_char_def char_of_eq_iff eq_commute[of "CHR ''0''"])

lemma pad2_two: "n < 100 \<Longrightarrow> pad2 n = [digit_char (n div 10), digit_char (n mod 10)]"
  by (simp add: pad2_def dec_lt10 dec_lt100 zero_digit)

lemma dec_lt1000:
  "100 \<le> n \<Longrightarrow> n < 1000 \<Longrightarrow>
   dec n = [digit_char (n div 100), digit_char (n div 10 mod 10), digit_char (n mod 10)]"
  by (subst dec.simps) (simp add: dec_lt100 div_mult2_eq[symmetric])

lemma dec_4digits:
  "1000 \<le> n \<Longrightarrow> n \<le> 9999 \<Longrightarrow>
   dec n = [digit_char (n div 1000), digit_char (n div 100 mod 10),
            digit_char (n div 10 mod 10), digit_char (n mod 10)]"
  by (subst dec.simps) (simp add: dec_lt1000 div_mult2_eq[symmetric])

lemma is_digit_digit_char: "k < 10 \<Longrightarrow> is_digit (digit_char k)"
  by (simp add: is_digit_def digit_char_def)

lemma is_digit_tens: "n < 100 \<Longrightarrow> is_digit (digit_char (n div 10))"
  by (rule is_digit_digit_char) simp

lemma is_digit_thousands: "n \<le> 9999 \<Longrightarrow> is_digit (digit_char (n div 1000))"
  by (rule is_digit_digit_char) simp

lemma strftime_shape: "valid_datetime dt \<Longrightarrow> is_mdy_hms (strftime dt)"
  unfolding valid_datetime_def strftime_def is_mdy_hms_def
  by (simp add: pad2_two dec_4digits is_digit_digit_char is_digit_tens is_digit_thousands)

lemma year_of_bounds:
  "year_of y d = (y', r) \<Longrightarrow> 0 \<le> d \<Longrightarrow>
   y \<le> y' \<and> 365 * y' \<le> 365 * y + d \<and> 0 \<le> r \<and> r < year_length y'"
proof (induction y d rule: year_of.induct)
  case (1 y d)
  show ?case
  proof (cases "d < year_length y")
    case True
    with "1.prems" show ?thesis by (simp add: year_of.simps [of y d])
  next
    case False
    with "1.prems" have "year_of (y + 1) (d - year_length y) = (y', r)"
      by (simp add: year_of.simps [of y d])
    moreover from False have "0 \<le> d - year_length y" by simp
    ultimately show ?thesis
      using "1.IH" [OF False] False by (auto simp: year_length_def split: if_splits)
  qed
qed

lemma month_of_bounds:
  "month_of ls m d = (m', d') \<Longrightarrow> 0 \<le> d \<Longrightarrow> d < sum_list ls \<Longrightarrow>
   list_all (\<lambda>l. l \<le> k) ls \<Longrightarrow>
   m \<le> m' \<and> m' < m + int (length ls) \<and> 1 \<le> d' \<and> d' \<le> k"
proof (induction ls arbitrary: m d)
  case Nil
  then show ?case by simp
next
  case (Cons l ls)
  show ?case
  proof (cases "d < l")
    case True
    with Cons.prems show ?thesis by auto
  next
    case False
    with Cons.prems have "month_of ls (m + 1) (d - l) = (m', d')" "0 \<le> d - l"
      "d - l < sum_list ls" "list_all (\<lambda>l. l \<le> k) ls"
      by auto
    from Cons.IH [OF this] show ?thesis by auto
  qed
qed

lemma sum_month_lengths: "sum_list (month_lengths y) = year_length y"
  by (simp add: month_lengths_def year_length_def)

lemma utc_clock_valid:
  assumes "- 86400 < x" and "x < 4294967296 + 86400"
  shows "valid_datetime (utc_clock x)"
proof -
  define days where "days = x div 86400 + 365"
  define secs where "secs = x mod 86400"
  obtain y doy where yo: "year_of 1969 days = (y, doy)" by (cases "year_of 1969 days")
  obtain m d where mo: "month_of (month_lengths y) 1 doy = (m, d)"
    by (cases "month_of (month_lengths y) 1 doy")
  from assms have "- 1 \<le> x div 86400" "x div 86400 \<le> 49711" by linarith+
  then have dd: "0 \<le> days" "days \<le> 50076" by (simp_all add: days_def)
  from year_of_bounds [OF yo dd(1)] have y: "1969 \<le> y" "365 * y \<le> 365 * 1969 + days"
    "0 \<le> doy" "doy < year_length y" by auto
  with dd have y': "y \<le> 2106" by linarith
  have "list_all (\<lambda>l. l \<le> 31) (month_lengths y)" by (simp add: month_lengths_def)
  moreover have "doy < sum_list (month_lengths y)" using y(4) by (simp only: sum_month_lengths)
  moreover have "length (month_lengths y) = 12" by (simp add: month_lengths_def)
  ultimately have md: "1 \<le> m" "m \<le> 12" "1 \<le> d" "d \<le> 31"
    using month_of_bounds [OF mo y(3), of 31] by auto
  have s: "0 \<le> secs" "secs < 86400" by (simp_all add: secs_def)
  then have t: "secs div 3600 < 24" "secs mod 3600 div 60 < 60" "secs mod 60 < 60"
    by simp_all
  have "utc_clock x = \<lparr>dt_year = nat y, dt_month = nat m, dt_day = nat d,
         dt_hour = nat (secs div 3600), dt_minute = nat (secs mod 3600 div 60),
         dt_second = nat (secs mod 60)\<rparr>"
    using mo by (simp add: utc_clock_def Let_def days_def [symmetric] secs_def [symmetric] yo)
  moreover have "1000 \<le> nat y" "nat y \<le> 9999" "1 \<le> nat m" "nat m \<le> 12" "1 \<le> nat d"
    "nat d \<le> 31" "nat (secs div 3600) < 24" "nat (secs mod 3600 div 60) < 60"
    "nat (secs mod 60) < 60"
    using y y' md t by linarith+
  ultimately show ?thesis by (simp add: valid_datetime_def)
qed

lemma fromtimestamp_valid: "valid_datetime (fromtimestamp zone (uint (w :: 32 word)))"
proof -
  have "0 \<le> uint w" "uint w < 4294967296" using uint_lt2p [of w] by simp_all
  moreover have "- 86400 < Rep_utcoffset (zone (uint w))" "Rep_utcoffset (zone (uint w)) < 86400"
    using Rep_utcoffset [of "zone (uint w)"] by simp_all
  ultimately show ?thesis
    unfolding fromtimestamp_def by (intro utc_clock_valid) linarith+
qed

lemma fromtimestamp_utc: "fromtimestamp utc_zone t = utc_clock t"
  by (simp add: fromtimestamp_def utc_zone_def Abs_utcoffset_inverse)


lemma max_from_mem: "max_from b fs \<in> set (b # fs)"
  by (induction fs arbitrary: b) auto

lemma max_from_ge_best: "st_mtime b \<le> st_mtime (max_from b fs)"
proof (induction fs arbitrary: b)
  case Nil
  then show ?case by simp
next
  case (Cons f fs)
  show ?case
  proof (cases "st_mtime b < st_mtime f")
    case True
    with Cons[of f] show ?thesis by simp
  next
    case False
    with Cons[of b] show ?thesis by simp
  qed
qed

lemma max_from_ge: "g \<in> set (b # fs) \<Longrightarrow> st_mtime g \<le> st_mtime (max_from b fs)"
proof (induction fs arbitrary: b)
  case Nil
  then show ?case by simp
next
  case (Cons f fs)
  show ?case
  proof (cases "st_mtime b < st_mtime f")
    case True
    have "st_mtime f \<le> st_mtime (max_from f fs)" by (rule max_from_ge_best)
    with True Cons.prems Cons.IH[of f] show ?thesis by auto
  next
    case False
    have "st_mtime b \<le> st_mtime (max_from b fs)" by (rule max_from_ge_best)
    with False Cons.prems Cons.IH[of b] show ?thesis by auto
  qed
qed

lemma max_from_first:
  "find (is_latest (b # fs)) (b # fs) = Some (max_from b fs)"
proof (induction fs arbitrary: b)
  case Nil
  then show ?case by (simp add: is_latest_def)
next
  case (Cons f fs)
  show ?case
  proof (cases "st_mtime b < st_mtime f")
    case True
    from True have nle: "\<not> st_mtime f \<le> st_mtime b" by (simp add: not_le)
    have nb: "\<not> is_latest (b # f # fs) b"
      using nle by (simp add: is_latest_def)
    have agree: "\<And>x. x \<in> set (f # fs) \<Longrightarrow>
        is_latest (b # f # fs) x = is_latest (f # fs) x"
      using True by (auto simp: is_latest_def list_all_iff)
    have "find (is_latest (b # f # fs)) (b # f # fs) = find (is_latest (b # f # fs)) (f # fs)"
      using nb by simp
    also have "\<dots> = find (is_latest (f # fs)) (f # fs)"
      by (rule find_cong) (auto simp: agree)
    also have "\<dots> = Some (max_from f fs)" by (rule Cons.IH)
    finally show ?thesis using True by simp
  next
    case False
    show ?thesis
    proof (cases "is_latest (b # fs) b")
      case True
      then have "is_latest (b # f # fs) b"
        using False by (simp add: is_latest_def)
      moreover from True Cons.IH[of b] have "max_from b fs = b" by simp
      ultimately show ?thesis using False by simp
    next
      case nb: False
      then obtain g where g: "g \<in> set fs" "st_mtime b < st_mtime g"
        by (auto simp: is_latest_def list_all_iff)
      have nb': "\<not> is_latest (b # f # fs) b"
        using g by (fastforce simp: is_latest_def list_all_iff)
      have nf: "\<not> is_latest (b # f # fs) f"
        using g False by (fastforce simp: is_latest_def list_all_iff)
      have agree: "\<And>x. x \<in> set fs \<Longrightarrow> is_latest (b # f # fs) x = is_latest (b # fs) x"
        using False g by (auto simp: is_latest_def list_all_iff)
      have "find (is_latest (b # f # fs)) (b # f # fs) = find (is_latest (b # f # fs)) fs"
        using nb' nf by simp
      also have "\<dots> = find (is_latest (b # fs)) fs"
        by (rule find_cong) (auto simp: agree)
      also have "\<dots> = find (is_latest (b # fs)) (b # fs)"
        using nb by simp
      also have "\<dots> = Some (max_from b fs)" by (rule Cons.IH)
      finally show ?thesis using False by simp
    qed
  qed
qed

lemma latest_of_Nil: "latest_of clock [] = (None, None)"
  by (simp add: latest_of_def)

lemma latest_of_nonempty:
  assumes "files \<noteq> []"
  shows "\<exists>f \<in> set files. (\<forall>g \<in> set files. st_mtime g \<le> st_mtime f) \<and>
           find (is_latest files) files = Some f \<and>
           latest_of clock files = (Some (filename f), Some (strftime (clock (uint (st_mtime f)))))"
proof -
  from assms obtain b fs where files: "files = b # fs" by (cases files) auto
  let ?m = "max_from b fs"
  have "?m \<in> set files" using max_from_mem[of b fs] files by simp
  moreover have "\<forall>g \<in> set files. st_mtime g \<le> st_mtime ?m"
    using max_from_ge[of _ b fs] files by blast
  moreover have "find (is_latest files) files = Some ?m"
    using max_from_first[of b fs] files by simp
  moreover have "latest_of clock files =
      (Some (filename ?m), Some (strftime (clock (uint (st_mtime ?m)))))"
    by (simp add: latest_of_def files Let_def)
  ultimately show ?thesis by blast
qed


lemma filter_latest:
  assumes "filter P files \<noteq> []"
  shows "\<exists>f \<in> set files. P f \<and> (\<forall>g \<in> set files. P g \<longrightarrow> st_mtime g \<le> st_mtime f) \<and>
           latest_of clock (filter P files) =
             (Some (filename f), Some (strftime (clock (uint (st_mtime f)))))"
  using latest_of_nonempty[OF assms, of clock] by auto

lemma filter_empty_iff_list_ex: "filter P xs = [] \<longleftrightarrow> \<not> list_ex P xs"
  by (simp add: filter_empty_conv list_ex_iff)

text \<open>
  Claim C3. For every folder, date \<open>d\<close> and filter list, whenever the candidates can be
  collected: if some candidate has local calendar date \<open>d\<close>, then
  \<open>get_latest_file_info_on_date\<close> returns the name and rendered time of a candidate whose
  local date is \<open>d\<close> and whose modification time is greatest among the candidates of that
  date; if no candidate has local date \<open>d\<close> it returns \<open>(None, None)\<close>, whatever
  candidates of other dates exist.
\<close>

theorem on_date_latest_of_that_date:
  assumes "collect_candidate_files lower sftp remote_folder name_filters = Inr files"
  shows "if list_ex (\<lambda>f. to_local_date clock f = d) files
         then \<exists>f \<in> set files. to_local_date clock f = d \<and>
                (\<forall>g \<in> set files. to_local_date clock g = d \<longrightarrow> st_mtime g \<le> st_mtime f) \<and>
                get_latest_file_info_on_date lower clock sftp remote_folder d name_filters =
                  Inr (Some (filename f), Some (strftime (clock (uint (st_mtime f)))))
         else get_latest_file_info_on_date lower clock sftp remote_folder d name_filters =
                Inr (None, None)"
proof (cases "list_ex (\<lambda>f. to_local_date clock f = d) files")
  case True
  then have "filter (\<lambda>f. to_local_date clock f = d) files \<noteq> []"
    by (simp add: filter_empty_iff_list_ex)
  from filter_latest[OF this, of clock] True assms show ?thesis
    by (simp add: get_latest_file_info_on_date_def)
next
  case False
  then have "filter (\<lambda>f. to_local_date clock f = d) files = []"
    by (simp add: filter_empty_iff_list_ex)
  with False assms show ?thesis
    by (simp add: get_latest_file_info_on_date_def latest_of_Nil)
qed

theorem on_date_latest_of_that_date_witness:
  "collect_candidate_files ascii_lower (Some flat_server) ''/in'' None = Inr (take 3 in_listing) \<and>
   (if list_ex (\<lambda>f. to_local_date utc_clock f = (2025, 10, 12)) (take 3 in_listing)
    then \<exists>f \<in> set (take 3 in_listing). to_local_date utc_clock f = (2025, 10, 12) \<and>
           (\<forall>g \<in> set (take 3 in_listing).
               to_local_date utc_clock g = (2025, 10, 12) \<longrightarrow> st_mtime g \<le> st_mtime f) \<and>
           get_latest_file_info_on_date ascii_lower utc_clock (Some flat_server) ''/in'' (2025, 10, 12) None =
             Inr (Some (filename f), Some (strftime (utc_clock (uint (st_mtime f)))))
    else get_latest_file_info_on_date ascii_lower utc_clock (Some flat_server) ''/in'' (2025, 10, 12) None =
           Inr (None, None)) \<and>
   get_latest_file_info_on_date ascii_lower utc_clock (Some flat_server) ''/in'' (2025, 10, 12) None =
     Inr (Some ''old.csv'', Some ''10/12/2025 08:00:00'') \<and>
   get_latest_file_info_on_date ascii_lower utc_clock (Some flat_server) ''/in'' (2025, 10, 13) None =
     Inr (None, None)"
proof -
  have h: "collect_candidate_files ascii_lower (Some flat_server) ''/in'' None = Inr (take 3 in_listing)"
    by code_simp
  have e1: "get_latest_file_info_on_date ascii_lower utc_clock (Some flat_server) ''/in'' (2025, 10, 12) None =
     Inr (Some ''old.csv'', Some ''10/12/2025 08:00:00'')"
    by code_simp
  have e2: "get_latest_file_info_on_date ascii_lower utc_clock (Some flat_server) ''/in'' (2025, 10, 13) None =
     Inr (None, None)"
    by code_simp
  show ?thesis
    using h e1 e2 on_date_latest_of_that_date[OF h, of utc_clock "(2025, 10, 12)"] by blast
qed


text \<open>
  Claim C5. For every folder, date \<open>d\<close> and filter list, whenever the candidates can be
  collected: if some candidate has a local calendar date strictly before \<open>d\<close>, then
  \<open>get_latest_file_info_before_date\<close> returns the name and rendered time of a candidate
  whose local date is strictly before \<open>d\<close> and whose modification time is greatest among
  the candidates dated before \<open>d\<close>; otherwise it returns \<open>(None, None)\<close>. A file dated
  \<open>d\<close> or later is therefore never the one returned.
\<close>

theorem before_date_latest_strictly_before:
  assumes "collect_candidate_files lower sftp remote_folder name_filters = Inr files"
  shows "if list_ex (\<lambda>f. date_less (to_local_date clock f) d) files
         then \<exists>f \<in> set files. date_less (to_local_date clock f) d \<and>
                \<not> date_less d (to_local_date clock f) \<and> to_local_date clock f \<noteq> d \<and>
                (\<forall>g \<in> set files. date_less (to_local_date clock g) d \<longrightarrow>
                    st_mtime g \<le> st_mtime f) \<and>
                get_latest_file_info_before_date lower clock sftp remote_folder d name_filters =
                  Inr (Some (filename f), Some (strftime (clock (uint (st_mtime f)))))
         else get_latest_file_info_before_date lower clock sftp remote_folder d name_filters =
                Inr (None, None)"
proof (cases "list_ex (\<lambda>f. date_less (to_local_date clock f) d) files")
  case True
  then have "filter (\<lambda>f. date_less (to_local_date clock f) d) files \<noteq> []"
    by (simp add: filter_empty_iff_list_ex)
  from filter_latest[OF this, of clock] obtain f where f: "f \<in> set files"
      "date_less (to_local_date clock f) d"
      "\<forall>g \<in> set files. date_less (to_local_date clock g) d \<longrightarrow> st_mtime g \<le> st_mtime f"
      "latest_of clock (filter (\<lambda>f. date_less (to_local_date clock f) d) files) =
         (Some (filename f), Some (strftime (clock (uint (st_mtime f)))))"
    by blast
  have "\<not> date_less d (to_local_date clock f)" "to_local_date clock f \<noteq> d"
    using f(2) by (auto simp: date_less_def split: prod.splits)
  with f True assms show ?thesis
    by (auto simp: get_latest_file_info_before_date_def)
next
  case False
  then have "filter (\<lambda>f. date_less (to_local_date clock f) d) files = []"
    by (simp add: filter_empty_iff_list_ex)
  with False assms show ?thesis
    by (simp add: get_latest_file_info_before_date_def latest_of_Nil)
qed

theorem before_date_latest_strictly_before_witness:
  "collect_candidate_files ascii_lower (Some flat_server) ''/in'' None = Inr (take 3 in_listing) \<and>
   (if list_ex (\<lambda>f. date_less (to_local_date utc_clock f) (2025, 10, 14)) (take 3 in_listing)
    then \<exists>f \<in> set (take 3 in_listing). date_less (to_local_date utc_clock f) (2025, 10, 14) \<and>
           \<not> date_less (2025, 10, 14) (to_local_date utc_clock f) \<and>
           to_local_date utc_clock f \<noteq> (2025, 10, 14) \<and>
           (\<forall>g \<in> set (take 3 in_listing).
               date_less (to_local_date utc_clock g) (2025, 10, 14) \<longrightarrow>
               st_mtime g \<le> st_mtime f) \<and>
           get_latest_file_info_before_date ascii_lower utc_clock (Some flat_server) ''/in''
               (2025, 10, 14) None =
             Inr (Some (filename f), Some (strftime (utc_clock (uint (st_mtime f)))))
    else get_latest_file_info_before_date ascii_lower utc_clock (Some flat_server) ''/in''
               (2025, 10, 14) None = Inr (None, None)) \<and>
   get_latest_file_info_before_date ascii_lower utc_clock (Some flat_server) ''/in'' (2025, 10, 14) None =
     Inr (Some ''old.csv'', Some ''10/12/2025 08:00:00'') \<and>
   get_latest_file_info_before_date ascii_lower utc_clock (Some flat_server) ''/in'' (2025, 10, 12) None =
     Inr (None, None)"
proof -
  have h: "collect_candidate_files ascii_lower (Some flat_server) ''/in'' None = Inr (take 3 in_listing)"
    by code_simp
  have e1: "get_latest_file_info_before_date ascii_lower utc_clock (Some flat_server) ''/in''
      (2025, 10, 14) None = Inr (Some ''old.csv'', Some ''10/12/2025 08:00:00'')"
    by code_simp
  have e2: "get_latest_file_info_before_date ascii_lower utc_clock (Some flat_server) ''/in''
      (2025, 10, 12) None = Inr (None, None)"
    by code_simp
  show ?thesis
    using h e1 e2 before_date_latest_strictly_before[OF h, of utc_clock "(2025, 10, 14)"]
    by blast
qed

lemma latest_of_both: "both_or_none (latest_of clock files)"
  by (cases files) (simp_all add: latest_of_def both_or_none_def Let_def)

lemma latest_of_well_formed: "well_formed_info (latest_of (fromtimestamp zone) files)"
proof (cases "files = []")
  case True
  then show ?thesis by (simp add: latest_of_Nil well_formed_info_def)
next
  case False
  from latest_of_nonempty[OF False, of "fromtimestamp zone"] obtain f :: entry where
    "latest_of (fromtimestamp zone) files =
       (Some (filename f), Some (strftime (fromtimestamp zone (uint (st_mtime f)))))"
    by blast
  then show ?thesis
    by (simp add: well_formed_info_def strftime_shape fromtimestamp_valid)
qed

text \<open>
  Claim C10. Each of \<open>get_latest_file_info\<close>, \<open>get_latest_file_info_before_date\<close> and
  \<open>get_latest_file_info_on_date\<close>, when it returns, returns a pair that is either
  \<open>(None, None)\<close> or a file name together with a time string: a pair with exactly one
  side set is never returned, whatever the clock. With the local time of any time zone
  the time string has the shape \<open>MM/DD/YYYY HH:MM:SS\<close>.
\<close>

theorem selection_results_well_formed:
  "(case get_latest_file_info lower clock sftp remote_folder name_filters of
      Inl e \<Rightarrow> True | Inr r \<Rightarrow> both_or_none r) \<and>
   (case get_latest_file_info_before_date lower clock sftp remote_folder d name_filters of
      Inl e \<Rightarrow> True | Inr r \<Rightarrow> both_or_none r) \<and>
   (case get_latest_file_info_on_date lower clock sftp remote_folder d name_filters of
      Inl e \<Rightarrow> True | Inr r \<Rightarrow> both_or_none r) \<and>
   (case get_latest_file_info lower (fromtimestamp zone) sftp remote_folder name_filters of
      Inl e \<Rightarrow> True | Inr r \<Rightarrow> well_formed_info r) \<and>
   (case get_latest_file_info_before_date lower (fromtimestamp zone) sftp remote_folder d
           name_filters of
      Inl e \<Rightarrow> True | Inr r \<Rightarrow> well_formed_info r) \<and>
   (case get_latest_file_info_on_date lower (fromtimestamp zone) sftp remote_folder d
           name_filters of
      Inl e \<Rightarrow> True | Inr r \<Rightarrow> well_formed_info r)"
  by (cases "collect_candidate_files lower sftp remote_folder name_filters")
    (simp_all add: get_latest_file_info_def get_latest_file_info_before_date_def
      get_latest_file_info_on_date_def latest_of_both latest_of_well_formed)

theorem selection_results_well_formed_witness:
  "get_latest_file_info ascii_lower (fromtimestamp utc_zone) (Some flat_server) ''/in'' None =
     Inr (Some ''new.csv'', Some ''10/14/2025 09:30:00'') \<and>
   well_formed_info (Some ''new.csv'', Some ''10/14/2025 09:30:00'') \<and>
   get_latest_file_info_on_date ascii_lower (fromtimestamp utc_zone) (Some flat_server) ''/in''
     (2025, 10, 13) None = Inr (None, None) \<and>
   well_formed_info (None, None)"
proof -
  have c: "fromtimestamp utc_zone = utc_clock"
    by (rule ext) (rule fromtimestamp_utc)
  have e1: "get_latest_file_info ascii_lower utc_clock (Some flat_server) ''/in'' None =
     Inr (Some ''new.csv'', Some ''10/14/2025 09:30:00'')"
    by code_simp
  have e2: "get_latest_file_info_on_date ascii_lower utc_clock (Some flat_server) ''/in''
     (2025, 10, 13) None = Inr (None, None)"
    by code_simp
  show ?thesis
    using selection_results_well_formed [where lower = ascii_lower and zone = utc_zone
        and sftp = "Some flat_server" and remote_folder = "''/in''" and name_filters = None
        and d = "(2025, 10, 13)"]
    by (simp add: c e1 e2)
qed


lemma collect_subfolders_cong:
  assumes "\<forall>d \<in> set ds. ls (subpath remote_folder d) = ls' (subpath remote_folder d)"
  shows "collect_subfolders (Some ls) remote_folder ds =
         collect_subfolders (Some ls') remote_folder ds"
  using assms
  by (induction ds) (simp_all add: list_files_in_folder_def split: listdir.splits)

lemma collect_candidate_files_cong:
  assumes "ls remote_folder = ls' remote_folder"
      and "list_all (\<lambda>d. ls (subpath remote_folder d) = ls' (subpath remote_folder d))
             (entries_of (ls remote_folder))"
  shows "collect_candidate_files lower (Some ls) remote_folder nf =
         collect_candidate_files lower (Some ls') remote_folder nf"
proof (cases "ls remote_folder")
  case (Entries es)
  have "\<And>P. collect_subfolders (Some ls) remote_folder (filter P es) =
             collect_subfolders (Some ls') remote_folder (filter P es)"
    using assms(2) Entries
    by (intro collect_subfolders_cong) (simp add: entries_of_def list_all_iff)
  then show ?thesis
    using assms(1)[symmetric] Entries
    by (simp add: collect_candidate_files_def list_files_in_folder_def Let_def)
next
  case FileNotFound
  then show ?thesis
    using assms(1)[symmetric]
    by (simp add: collect_candidate_files_def list_files_in_folder_def Let_def)
next
  case (Failure x)
  then show ?thesis
    using assms(1)[symmetric]
    by (simp add: collect_candidate_files_def list_files_in_folder_def)
qed

lemma per_prefix_loop_cong:
  assumes "\<And>nf. collect_candidate_files lower s remote_folder nf =
                 collect_candidate_files lower s' remote_folder nf"
  shows "per_prefix_loop lower clock s remote_folder today ps result =
         per_prefix_loop lower clock s' remote_folder today ps result"
  by (induction ps arbitrary: result) (simp_all add: assms split: sum.splits)

text \<open>
  Claim C8. Selection is a function of the listings it reads: when two states of the
  server give the same listing for the folder and for each subfolder named by one of
  its entries (the same entries in the same order), every selection operation returns
  the same result on both, whatever else has changed. Among candidates that share the
  greatest modification time the one returned by \<open>get_latest_file_info\<close> is fixed by
  the order of the listing: it is the first of them.
\<close>

theorem selection_deterministic:
  assumes "ls remote_folder = ls' remote_folder"
      and "list_all (\<lambda>d. ls (subpath remote_folder d) = ls' (subpath remote_folder d))
             (entries_of (ls remote_folder))"
  shows "get_latest_file_info lower clock (Some ls) remote_folder nf =
           get_latest_file_info lower clock (Some ls') remote_folder nf \<and>
         get_latest_file_info_before_date lower clock (Some ls) remote_folder d nf =
           get_latest_file_info_before_date lower clock (Some ls') remote_folder d nf \<and>
         get_latest_file_info_on_date lower clock (Some ls) remote_folder d nf =
           get_latest_file_info_on_date lower clock (Some ls') remote_folder d nf \<and>
         get_latest_files_per_prefix lower clock (Some ls) remote_folder pfxs od =
           get_latest_files_per_prefix lower clock (Some ls') remote_folder pfxs od \<and>
         (\<forall>files. collect_candidate_files lower (Some ls) remote_folder nf = Inr files \<longrightarrow>
            files \<noteq> [] \<longrightarrow>
            (\<exists>m. find (is_latest files) files = Some m \<and>
                 get_latest_file_info lower clock (Some ls) remote_folder nf =
                   Inr (Some (filename m), Some (strftime (clock (uint (st_mtime m)))))))"
proof -
  have c: "\<And>nf. collect_candidate_files lower (Some ls) remote_folder nf =
                 collect_candidate_files lower (Some ls') remote_folder nf"
    by (rule collect_candidate_files_cong[OF assms])
  have tie: "\<exists>m. find (is_latest files) files = Some m \<and>
                 get_latest_file_info lower clock (Some ls) remote_folder nf =
                   Inr (Some (filename m), Some (strftime (clock (uint (st_mtime m)))))"
    if "collect_candidate_files lower (Some ls) remote_folder nf = Inr files" "files \<noteq> []"
    for files
    using latest_of_nonempty[OF that(2), of clock] that(1)
    by (auto simp: get_latest_file_info_def)
  show ?thesis
    using tie per_prefix_loop_cong[of lower "Some ls" remote_folder "Some ls'", OF c]
    by (simp add: c get_latest_file_info_def get_latest_file_info_before_date_def
        get_latest_file_info_on_date_def get_latest_files_per_prefix_def)
qed

theorem selection_deterministic_witness:
  "flat_server ''/in'' = flat_server_later ''/in'' \<and>
   list_all (\<lambda>d. flat_server (subpath ''/in'' d) = flat_server_later (subpath ''/in'' d))
     (entries_of (flat_server ''/in'')) \<and>
   get_latest_file_info ascii_lower utc_clock (Some flat_server) ''/in'' None =
     get_latest_file_info ascii_lower utc_clock (Some flat_server_later) ''/in'' None \<and>
   get_latest_file_info ascii_lower utc_clock (Some flat_server) ''/in'' None =
     Inr (Some ''new.csv'', Some ''10/14/2025 09:30:00'') \<and>
   find (is_latest (take 3 in_listing)) (take 3 in_listing) = Some (in_listing ! 1) \<and>
   st_mtime (in_listing ! 1) = st_mtime (in_listing ! 2)"
proof -
  have h1: "flat_server ''/in'' = flat_server_later ''/in''"
    by (simp add: flat_server_def flat_server_later_def)
  have h2: "list_all (\<lambda>d. flat_server (subpath ''/in'' d) = flat_server_later (subpath ''/in'' d))
     (entries_of (flat_server ''/in''))"
    by (simp add: flat_server_def flat_server_later_def entries_of_def in_listing_def
        subpath_def rstrip_chars_def)
  have e: "get_latest_file_info ascii_lower utc_clock (Some flat_server) ''/in'' None =
     Inr (Some ''new.csv'', Some ''10/14/2025 09:30:00'')"
    by code_simp
  have f: "find (is_latest (take 3 in_listing)) (take 3 in_listing) = Some (in_listing ! 1)"
    by code_simp
  have t: "st_mtime (in_listing ! 1) = st_mtime (in_listing ! 2)"
    by code_simp
  show ?thesis
    using h1 h2 e f t
      selection_deterministic[OF h1 h2, where lower = ascii_lower and clock = utc_clock and nf = None
        and d = "(2025, 10, 12)" and pfxs = "[]" and od = None]
    by simp
qed


lemma startswith_Nil: "startswith s []"
  by (simp add: startswith_def)

lemma matches_any_lowered:
  "matches_any lower (lowered_filters lower (Some fs)) e =
   list_ex (\<lambda>s. s \<noteq> [] \<and> startswith (lower (filename e)) (lower s)) fs"
  by (auto simp: matches_any_def lowered_filters_def list_ex_iff)

lemma collect_subfolders_mem:
  assumes "f \<in> set (collect_subfolders sftp remote_folder ds)"
  shows "\<exists>d \<in> set ds. \<exists>sub. list_files_in_folder sftp (subpath remote_folder d) = Inr sub \<and>
           f \<in> set sub \<and> S_ISREG (st_mode f)"
  using assms by (induction ds) (auto split: sum.splits)

lemma candidates_allowed:
  assumes c: "collect_candidate_files lower sftp remote_folder (Some fs) = Inr files"
      and f: "f \<in> set files" and ne: "fs \<noteq> []" and ln: "lower [] = []"
  shows "name_allowed lower sftp remote_folder fs (filename f)"
proof -
  from c obtain entries where l: "list_files_in_folder sftp remote_folder = Inr entries"
    by (auto simp: collect_candidate_files_def split: sum.splits)
  let ?lowered = "lowered_filters lower (Some fs)"
  let ?files0 = "filter (\<lambda>e. S_ISREG (st_mode e)) entries"
  let ?files = "if ?lowered \<noteq> [] \<and> ?files0 \<noteq> [] then filter (matches_any lower ?lowered) ?files0
                else ?files0"
  show ?thesis
  proof (cases "?lowered = []")
    case True
    then have "\<forall>s \<in> set fs. s = []"
      by (auto simp: lowered_filters_def filter_empty_conv)
    with ne have "list_ex (\<lambda>s. startswith (lower (filename f)) (lower s)) fs"
      by (cases fs) (auto simp: ln startswith_Nil)
    then show ?thesis by (simp add: name_allowed_def)
  next
    case lne: False
    show ?thesis
    proof (cases "?files = []")
      case False
      with c l have "files = ?files"
        by (simp add: collect_candidate_files_def Let_def)
      with f lne False have "matches_any lower ?lowered f"
        by (auto split: if_splits)
      then have "list_ex (\<lambda>s. startswith (lower (filename f)) (lower s)) fs"
        by (auto simp: matches_any_lowered list_ex_iff)
      then show ?thesis by (simp add: name_allowed_def)
    next
      case True
      with c l lne have files:
        "files = collect_subfolders sftp remote_folder
                   (filter (matches_any lower ?lowered) (filter (\<lambda>e. S_ISDIR (st_mode e)) entries))"
        by (simp add: collect_candidate_files_def Let_def)
      from True lne have nd: "\<forall>e \<in> set entries. S_ISREG (st_mode e) \<longrightarrow> \<not> matches_any lower ?lowered e"
        by (auto simp: filter_empty_conv split: if_splits)
      have ndm: "no_direct_match lower sftp remote_folder fs"
        using nd l by (auto simp: no_direct_match_def list_ex_iff matches_any_lowered)
      from f files collect_subfolders_mem obtain d sub where
        d: "d \<in> set entries" "S_ISDIR (st_mode d)" "matches_any lower ?lowered d"
        "list_files_in_folder sftp (subpath remote_folder d) = Inr sub"
        "f \<in> set sub" "S_ISREG (st_mode f)"
        by fastforce
      have inner: "list_ex (\<lambda>g. S_ISREG (st_mode g) \<and> filename g = filename f) sub"
        using d(5,6) by (auto simp: list_ex_iff)
      have md: "list_ex (\<lambda>s. s \<noteq> [] \<and> startswith (lower (filename d)) (lower s)) fs"
        using d(3) by (simp add: matches_any_lowered)
      have "list_ex (\<lambda>d. S_ISDIR (st_mode d) \<and>
                 list_ex (\<lambda>s. s \<noteq> [] \<and> startswith (lower (filename d)) (lower s)) fs \<and>
                 (case list_files_in_folder sftp (subpath remote_folder d) of
                    Inl _ \<Rightarrow> False
                  | Inr sub \<Rightarrow>
                      list_ex (\<lambda>g. S_ISREG (st_mode g) \<and> filename g = filename f) sub))
            entries"
        unfolding list_ex_iff[of _ entries]
      proof (rule bexI[of _ d])
        show "d \<in> set entries" by fact
        show "S_ISDIR (st_mode d) \<and>
              list_ex (\<lambda>s. s \<noteq> [] \<and> startswith (lower (filename d)) (lower s)) fs \<and>
              (case list_files_in_folder sftp (subpath remote_folder d) of
                 Inl _ \<Rightarrow> False
               | Inr sub \<Rightarrow>
                   list_ex (\<lambda>g. S_ISREG (st_mode g) \<and> filename g = filename f) sub)"
          using d(2,4) md inner by simp
      qed
      then have "from_matching_subfolder lower sftp remote_folder fs (filename f)"
        using l by (simp add: from_matching_subfolder_def)
      with ndm show ?thesis by (simp add: name_allowed_def)
    qed
  qed
qed

lemma latest_of_name:
  assumes "latest_of clock files = (Some nm, ts)"
  shows "\<exists>f \<in> set files. filename f = nm"
proof (cases "files = []")
  case True
  with assms show ?thesis by (simp add: latest_of_Nil)
next
  case False
  from latest_of_nonempty[OF False, of clock] assms show ?thesis by auto
qed

lemma set_alist_update: "set (AList.update k v al) \<subseteq> insert (k, v) (set al)"
  by (induction al) auto

lemma per_prefix_loop_entries:
  assumes "per_prefix_loop lower clock sftp remote_folder today ps result = Inr res"
      and "(p, r) \<in> set res"
  shows "(p, r) \<in> set result \<or>
         (p \<in> set ps \<and> single_filter_selection lower clock sftp remote_folder today p = Inr r)"
  using assms
proof (induction ps arbitrary: result)
  case Nil
  then show ?case by simp
next
  case (Cons q ps)
  from Cons.prems(1) obtain files where
    c: "collect_candidate_files lower sftp remote_folder (Some [q]) = Inr files"
    by (auto split: sum.splits)
  let ?files' = "case today of None \<Rightarrow> files
                 | Some d \<Rightarrow> filter (\<lambda>f. to_local_date clock f = d) files"
  have sel: "single_filter_selection lower clock sftp remote_folder today q =
             Inr (latest_of clock ?files')"
    using c by (simp add: single_filter_selection_def get_latest_file_info_def
        get_latest_file_info_on_date_def split: option.splits)
  from Cons.prems(1) c have
    "per_prefix_loop lower clock sftp remote_folder today ps
       (AList.update q (latest_of clock ?files') result) = Inr res"
    by (simp add: Let_def)
  from Cons.IH[OF this Cons.prems(2)] show ?case
  proof
    assume "(p, r) \<in> set (AList.update q (latest_of clock ?files') result)"
    with set_alist_update[of q "latest_of clock ?files'" result]
    have "(p, r) = (q, latest_of clock ?files') \<or> (p, r) \<in> set result" by auto
    then show ?thesis using sel by auto
  next
    assume "p \<in> set ps \<and> single_filter_selection lower clock sftp remote_folder today p = Inr r"
    then show ?thesis by simp
  qed
qed

lemma single_filter_name_allowed:
  assumes "single_filter_selection lower clock sftp remote_folder today p = Inr (Some nm, ts)"
      and ln: "lower [] = []"
  shows "name_allowed lower sftp remote_folder [p] nm"
proof -
  from assms(1) obtain files where
    c: "collect_candidate_files lower sftp remote_folder (Some [p]) = Inr files"
    by (auto simp: single_filter_selection_def get_latest_file_info_def
        get_latest_file_info_on_date_def split: option.splits sum.splits)
  from assms(1) c obtain P where "latest_of clock (filter P files) = (Some nm, ts)"
    by (cases today)
      (auto simp: single_filter_selection_def get_latest_file_info_def
        get_latest_file_info_on_date_def intro: that[of "\<lambda>_. True"])
  from latest_of_name[OF this] obtain f where "f \<in> set files" "filename f = nm" by auto
  with candidates_allowed[OF c, of f] ln show ?thesis by simp
qed

text \<open>
  Claim C1, amended. Names are compared after \<open>str.lower\<close>, which maps the empty string
  to itself. For every folder listing and every non-empty list of name filters, a file
  name returned by \<open>get_latest_file_info\<close>, \<open>get_latest_file_info_on_date\<close> or
  \<open>get_latest_file_info_before_date\<close> starts, ignoring case, with one of the filters,
  or else no regular file of the folder itself starts with a non-empty filter of the
  list and the name is that of a regular file directly inside a subfolder whose own name
  starts, ignoring case, with one of the non-empty filters: the subfolder fallback matches
  the filters against the name of the subfolder and keeps every regular file in it.
  \<open>get_latest_files_per_prefix\<close> looks each prefix up alone, so a name in its result is
  allowed in the same way by the one key it is stored under, taken as the only filter:
  it starts with that key, or no regular file of the folder starts with that key and the
  name comes from a subfolder whose name starts with that key, whatever the other
  prefixes match.
\<close>

theorem returned_name_allowed:
  assumes "fs \<noteq> []" and "lower [] = []"
  shows "(\<forall>nm ts. get_latest_file_info lower clock sftp remote_folder (Some fs) = Inr (Some nm, ts)
            \<longrightarrow> name_allowed lower sftp remote_folder fs nm) \<and>
         (\<forall>nm ts. get_latest_file_info_on_date lower clock sftp remote_folder d (Some fs) =
              Inr (Some nm, ts) \<longrightarrow> name_allowed lower sftp remote_folder fs nm) \<and>
         (\<forall>nm ts. get_latest_file_info_before_date lower clock sftp remote_folder d (Some fs) =
              Inr (Some nm, ts) \<longrightarrow> name_allowed lower sftp remote_folder fs nm) \<and>
         (\<forall>res p nm ts. get_latest_files_per_prefix lower clock sftp remote_folder fs od = Inr res
            \<longrightarrow> (p, Some nm, ts) \<in> set res \<longrightarrow> name_allowed lower sftp remote_folder [p] nm)"
proof -
  have sel: "name_allowed lower sftp remote_folder fs nm"
    if "collect_candidate_files lower sftp remote_folder (Some fs) = Inr files"
       "latest_of clock (filter P files) = (Some nm, ts)" for files P nm ts
  proof -
    from latest_of_name[OF that(2)] obtain f where "f \<in> set files" "filename f = nm"
      by auto
    with candidates_allowed[OF that(1) _ assms, of f] show ?thesis by simp
  qed
  have a: "name_allowed lower sftp remote_folder fs nm"
    if "get_latest_file_info lower clock sftp remote_folder (Some fs) = Inr (Some nm, ts)"
    for nm ts
    using that sel[of _ "\<lambda>_. True"]
    by (auto simp: get_latest_file_info_def split: sum.splits)
  have b: "name_allowed lower sftp remote_folder fs nm"
    if "get_latest_file_info_on_date lower clock sftp remote_folder d (Some fs) = Inr (Some nm, ts)"
    for nm ts
    using that sel by (auto simp: get_latest_file_info_on_date_def split: sum.splits)
  have c: "name_allowed lower sftp remote_folder fs nm"
    if "get_latest_file_info_before_date lower clock sftp remote_folder d (Some fs) =
          Inr (Some nm, ts)"
    for nm ts
    using that sel by (auto simp: get_latest_file_info_before_date_def split: sum.splits)
  have e: "name_allowed lower sftp remote_folder [p] nm"
    if "get_latest_files_per_prefix lower clock sftp remote_folder fs od = Inr res"
       "(p, Some nm, ts) \<in> set res" for res p nm ts
  proof -
    from that(1) have "per_prefix_loop lower clock sftp remote_folder od
        (map lower (filter (\<lambda>p. p \<noteq> []) fs)) [] = Inr res"
      by (simp add: get_latest_files_per_prefix_def)
    from per_prefix_loop_entries[OF this that(2)]
    have "single_filter_selection lower clock sftp remote_folder od p = Inr (Some nm, ts)"
      by simp
    then show ?thesis using assms(2) by (rule single_filter_name_allowed)
  qed
  from a b c e show ?thesis by blast
qed


theorem returned_name_allowed_witness:
  "[''RevAI_Fleet''] \<noteq> [] \<and> ascii_lower [] = [] \<and>
   get_latest_file_info ascii_lower utc_clock (Some nested_server) ''/base'' (Some [''RevAI_Fleet'']) =
     Inr (Some ''data.csv'', Some ''10/14/2025 09:30:00'') \<and>
   name_allowed ascii_lower (Some nested_server) ''/base'' [''RevAI_Fleet''] ''data.csv'' \<and>
   from_matching_subfolder ascii_lower (Some nested_server) ''/base'' [''RevAI_Fleet''] ''data.csv''"
proof -
  have h: "[''RevAI_Fleet''] \<noteq> ([] :: string list)" by simp
  have e: "get_latest_file_info ascii_lower utc_clock (Some nested_server) ''/base''
      (Some [''RevAI_Fleet'']) = Inr (Some ''data.csv'', Some ''10/14/2025 09:30:00'')"
    by code_simp
  have s: "from_matching_subfolder ascii_lower (Some nested_server) ''/base'' [''RevAI_Fleet''] ''data.csv''"
    by code_simp
  have n: "ascii_lower [] = []" by (simp add: ascii_lower_def)
  from returned_name_allowed[where lower = ascii_lower and fs = "[''RevAI_Fleet'']"
      and clock = utc_clock and sftp = "Some nested_server" and remote_folder = "''/base''",
      OF h n] e
  have "name_allowed ascii_lower (Some nested_server) ''/base'' [''RevAI_Fleet''] ''data.csv''"
    by blast
  with h n e s show ?thesis by blast
qed

text \<open>
  Claim C1 as stated fails: with the filter \<open>RevAI_Fleet\<close>, a folder that holds only the
  directory \<open>RevAI_Fleet\<close> yields the file \<open>data.csv\<close> found inside it, whose name does
  not start with the filter.
\<close>

theorem returned_name_prefix_counterexample:
  "get_latest_file_info ascii_lower utc_clock (Some nested_server) ''/base'' (Some [''RevAI_Fleet'']) =
     Inr (Some ''data.csv'', Some ''10/14/2025 09:30:00'') \<and>
   \<not> startswith (ascii_lower ''data.csv'') (ascii_lower ''RevAI_Fleet'')"
  by code_simp


lemma collect_error_iff:
  "collect_candidate_files lower sftp remote_folder nf = Inl e \<longleftrightarrow>
   list_files_in_folder sftp remote_folder = Inl e"
  by (auto simp: collect_candidate_files_def Let_def split: sum.splits)

lemma single_filter_error_iff:
  "single_filter_selection lower clock sftp remote_folder od p = Inl e \<longleftrightarrow>
   list_files_in_folder sftp remote_folder = Inl e"
  using collect_error_iff[of lower sftp remote_folder "Some [p]" e]
  by (auto simp: single_filter_selection_def get_latest_file_info_def
      get_latest_file_info_on_date_def split: option.splits sum.splits)

lemma collect_lowered_cong:
  "lowered_filters lower nf = lowered_filters lower nf' \<Longrightarrow>
   collect_candidate_files lower sftp remote_folder nf = collect_candidate_files lower sftp remote_folder nf'"
  by (simp add: collect_candidate_files_def split: sum.splits)

lemma lowered_filters_lower:
  assumes "lower (lower p) = lower p" and "lower p \<noteq> []" and "p \<noteq> []"
  shows "lowered_filters lower (Some [lower p]) = lowered_filters lower (Some [p])"
  using assms by (simp add: lowered_filters_def)

lemma single_filter_lower:
  assumes "lower (lower p) = lower p" and "lower p \<noteq> []" and "p \<noteq> []"
  shows "single_filter_selection lower clock sftp remote_folder od (lower p) =
         single_filter_selection lower clock sftp remote_folder od p"
  using collect_lowered_cong[OF lowered_filters_lower[OF assms], of sftp remote_folder]
  by (simp add: single_filter_selection_def get_latest_file_info_def
      get_latest_file_info_on_date_def split: option.splits)

lemma per_prefix_loop_step:
  "per_prefix_loop lower clock sftp remote_folder today (q # ps) result =
     (case single_filter_selection lower clock sftp remote_folder today q of
        Inl e \<Rightarrow> Inl e
      | Inr r \<Rightarrow> per_prefix_loop lower clock sftp remote_folder today ps (AList.update q r result))"
  by (simp add: single_filter_selection_def get_latest_file_info_def
      get_latest_file_info_on_date_def Let_def split: option.splits sum.splits)

lemma per_prefix_loop_Inr:
  assumes "per_prefix_loop lower clock sftp remote_folder today ps result = Inr res"
      and "distinct (map fst result)"
  shows "distinct (map fst res) \<and> fst ` set res = fst ` set result \<union> set ps \<and>
         (\<forall>p \<in> set ps. \<exists>r. single_filter_selection lower clock sftp remote_folder today p = Inr r \<and>
                               map_of res p = Some r) \<and>
         (\<forall>p. p \<notin> set ps \<longrightarrow> map_of res p = map_of result p)"
  using assms
proof (induction ps arbitrary: result)
  case Nil
  then show ?case by simp
next
  case (Cons q ps)
  from Cons.prems(1) obtain r where
    r: "single_filter_selection lower clock sftp remote_folder today q = Inr r"
    and loop: "per_prefix_loop lower clock sftp remote_folder today ps (AList.update q r result) = Inr res"
    by (auto simp: per_prefix_loop_step simp del: per_prefix_loop.simps split: sum.splits)
  have d: "distinct (map fst (AList.update q r result))"
    using Cons.prems(2) by (simp add: distinct_update)
  from Cons.IH[OF loop d] have
    1: "distinct (map fst res)" and
    2: "fst ` set res = fst ` set (AList.update q r result) \<union> set ps" and
    3: "\<forall>p \<in> set ps. \<exists>r. single_filter_selection lower clock sftp remote_folder today p = Inr r \<and>
                               map_of res p = Some r" and
    4: "\<forall>p. p \<notin> set ps \<longrightarrow> map_of res p = map_of (AList.update q r result) p"
    by auto
  have keys: "fst ` set res = fst ` set result \<union> set (q # ps)"
    using 2 by (auto simp: dom_update)
  have q: "\<exists>r'. single_filter_selection lower clock sftp remote_folder today q = Inr r' \<and>
                map_of res q = Some r'"
  proof (cases "q \<in> set ps")
    case True
    with 3 show ?thesis by blast
  next
    case False
    with 4 have "map_of res q = map_of (AList.update q r result) q" by simp
    then show ?thesis using r by (simp add: update_conv')
  qed
  have frame: "\<forall>p. p \<notin> set (q # ps) \<longrightarrow> map_of res p = map_of result p"
    using 4 by (auto simp: update_conv')
  from 1 keys 3 q frame show ?case by auto
qed

lemma per_prefix_loop_Inl:
  assumes "per_prefix_loop lower clock sftp remote_folder today ps result = Inl e"
  shows "ps \<noteq> [] \<and> list_files_in_folder sftp remote_folder = Inl e"
  using assms
proof (induction ps arbitrary: result)
  case Nil
  then show ?case by simp
next
  case (Cons q ps)
  show ?case
  proof (cases "single_filter_selection lower clock sftp remote_folder today q")
    case (Inl e')
    with Cons.prems have "e' = e"
      by (simp add: per_prefix_loop_step del: per_prefix_loop.simps)
    with Inl show ?thesis by (simp add: single_filter_error_iff)
  next
    case (Inr r)
    with Cons.prems have
      "per_prefix_loop lower clock sftp remote_folder today ps (AList.update q r result) = Inl e"
      by (simp add: per_prefix_loop_step del: per_prefix_loop.simps)
    from Cons.IH[OF this] show ?thesis by simp
  qed
qed

text \<open>
  Claim C9, amended. Lower-casing is \<open>str.lower\<close>: lower-casing twice gives what
  lower-casing once gives, and a non-empty string stays non-empty.
  \<open>get_latest_files_per_prefix\<close> skips the empty prefixes and processes every other
  prefix as if it were a singleton filter list: when it returns, the result has exactly
  one entry for each lower-cased non-empty prefix (prefixes with the same lower-case form
  share their entry), and the entry under \<open>lower p\<close> is what the single-filter selection
  returns for \<open>p\<close> alone, restricted to \<open>on_date\<close> when one is given. When it raises, at
  least one prefix is non-empty and the single-filter selection raises the same error for
  every prefix.
\<close>

theorem per_prefix_is_single_filter_selection:
  assumes idem: "\<And>s. lower (lower s) = lower s"
      and nonempty: "\<And>s. s \<noteq> [] \<Longrightarrow> lower s \<noteq> []"
  shows
  "case get_latest_files_per_prefix lower clock sftp remote_folder pfxs od of
     Inr res \<Rightarrow>
       distinct (map fst res) \<and>
       fst ` set res = lower ` {p \<in> set pfxs. p \<noteq> []} \<and>
       (\<forall>p \<in> set pfxs. p \<noteq> [] \<longrightarrow>
          (\<exists>r. single_filter_selection lower clock sftp remote_folder od p = Inr r \<and>
               map_of res (lower p) = Some r))
   | Inl e \<Rightarrow>
       (\<exists>p \<in> set pfxs. p \<noteq> []) \<and>
       (\<forall>p \<in> set pfxs. single_filter_selection lower clock sftp remote_folder od p = Inl e)"
proof (cases "get_latest_files_per_prefix lower clock sftp remote_folder pfxs od")
  case (Inr res)
  let ?lowered = "map lower (filter (\<lambda>p. p \<noteq> []) pfxs)"
  from Inr have loop: "per_prefix_loop lower clock sftp remote_folder od ?lowered [] = Inr res"
    by (simp add: get_latest_files_per_prefix_def)
  from per_prefix_loop_Inr[OF loop] have
    1: "distinct (map fst res)" and
    2: "fst ` set res = set ?lowered" and
    3: "\<forall>p \<in> set ?lowered. \<exists>r. single_filter_selection lower clock sftp remote_folder od p = Inr r \<and>
                               map_of res p = Some r"
    by auto
  have keys: "fst ` set res = lower ` {p \<in> set pfxs. p \<noteq> []}"
    using 2 by auto
  have each: "\<exists>r. single_filter_selection lower clock sftp remote_folder od p = Inr r \<and>
                   map_of res (lower p) = Some r"
    if "p \<in> set pfxs" "p \<noteq> []" for p
  proof -
    from that have "lower p \<in> set ?lowered" by auto
    with 3 obtain r where
      "single_filter_selection lower clock sftp remote_folder od (lower p) = Inr r"
      "map_of res (lower p) = Some r"
      by blast
    then show ?thesis
      using single_filter_lower[OF idem nonempty[OF that(2)] that(2), of clock sftp remote_folder od]
      by auto
  qed
  from 1 keys each Inr show ?thesis by simp
next
  case (Inl e)
  let ?lowered = "map lower (filter (\<lambda>p. p \<noteq> []) pfxs)"
  from Inl have "per_prefix_loop lower clock sftp remote_folder od ?lowered [] = Inl e"
    by (simp add: get_latest_files_per_prefix_def)
  from per_prefix_loop_Inl[OF this] have
    ne: "?lowered \<noteq> []" and err: "list_files_in_folder sftp remote_folder = Inl e"
    by auto
  from ne have "\<exists>p \<in> set pfxs. p \<noteq> []"
    by (auto simp: filter_empty_conv)
  with err Inl show ?thesis by (simp add: single_filter_error_iff)
qed


theorem per_prefix_is_single_filter_selection_witness:
  "get_latest_files_per_prefix ascii_lower utc_clock (Some flat_server) ''/in'' [''NEW'', [], ''old''] None =
     Inr [(''new'', Some ''new.csv'', Some ''10/14/2025 09:30:00''),
          (''old'', Some ''old.csv'', Some ''10/12/2025 08:00:00'')] \<and>
   ''NEW'' \<in> set [''NEW'', [], ''old''] \<and> ''NEW'' \<noteq> [] \<and>
   (\<exists>r. single_filter_selection ascii_lower utc_clock (Some flat_server) ''/in'' None ''NEW'' = Inr r \<and>
        map_of [(''new'', Some ''new.csv'', Some ''10/14/2025 09:30:00''),
                (''old'', Some ''old.csv'', Some ''10/12/2025 08:00:00'')] (ascii_lower ''NEW'') =
          Some r)"
proof -
  have e: "get_latest_files_per_prefix ascii_lower utc_clock (Some flat_server) ''/in''
             [''NEW'', [], ''old''] None =
     Inr [(''new'', Some ''new.csv'', Some ''10/14/2025 09:30:00''),
          (''old'', Some ''old.csv'', Some ''10/12/2025 08:00:00'')]"
    by code_simp
  have m: "''NEW'' \<in> set [''NEW'', [], ''old'']" "''NEW'' \<noteq> []" by simp_all
  from per_prefix_is_single_filter_selection
         [where lower = ascii_lower and clock = utc_clock and sftp = "Some flat_server"
            and remote_folder = "''/in''" and pfxs = "[''NEW'', [], ''old'']" and od = None,
          OF ascii_lower_idem ascii_lower_nonempty]
  have "\<forall>p \<in> set [''NEW'', [], ''old'']. p \<noteq> [] \<longrightarrow>
          (\<exists>r. single_filter_selection ascii_lower utc_clock (Some flat_server) ''/in'' None p = Inr r \<and>
               map_of [(''new'', Some ''new.csv'', Some ''10/14/2025 09:30:00''),
                       (''old'', Some ''old.csv'', Some ''10/12/2025 08:00:00'')] (ascii_lower p) =
                 Some r)"
    unfolding e by simp
  with m have "\<exists>r. single_filter_selection ascii_lower utc_clock (Some flat_server) ''/in'' None ''NEW'' =
                      Inr r \<and>
        map_of [(''new'', Some ''new.csv'', Some ''10/14/2025 09:30:00''),
                (''old'', Some ''old.csv'', Some ''10/12/2025 08:00:00'')] (ascii_lower ''NEW'') =
          Some r"
    by blast
  with e m show ?thesis by blast
qed

text \<open>
  Claim C9 as stated fails for an empty prefix: the single-filter selection for the filter
  list \<open>['''']\<close> returns the latest file of the folder, while the per-prefix result holds
  no entry for that prefix.
\<close>

theorem per_prefix_empty_prefix_counterexample:
  "get_latest_files_per_prefix ascii_lower utc_clock (Some flat_server) ''/in'' [[]] None = Inr [] \<and>
   get_latest_file_info ascii_lower utc_clock (Some flat_server) ''/in'' (Some [[]]) =
     Inr (Some ''new.csv'', Some ''10/14/2025 09:30:00'')"
  by code_simp





















lemma parse_folder_value_path: "fst (parse_folder_value lib raw) \<noteq> []"
  by (simp add: parse_folder_value_def Let_def)

lemma add_extra_filters_path: "path (add_extra_filters lib extra f) = path f"
  by (simp add: add_extra_filters_def Let_def)

lemma process_line_paths:
  assumes "\<forall>f \<in> set (folders acct). path f \<noteq> []"
  shows "\<forall>f \<in> set (folders (process_line lib line acct)). path f \<noteq> []"
proof (cases "startswith line ''--''")
  case True
  with assms show ?thesis by (simp add: process_line_def)
next
  case dash: False
  show ?thesis
  proof (cases "CHR '':'' \<in> set line")
    case False
    show ?thesis
    proof (cases "folders acct = []")
      case True
      with dash False show ?thesis by (simp add: process_line_def)
    next
      case ne: False
      then have "last (folders acct) \<in> set (folders acct)" by simp
      with assms have "path (last (folders acct)) \<noteq> []" by blast
      moreover have "\<forall>f \<in> set (butlast (folders acct)). path f \<noteq> []"
        using assms by (auto dest: in_set_butlastD)
      ultimately show ?thesis
        using dash False ne by (simp add: process_line_def add_extra_filters_path)
    qed
  next
    case True
    obtain p fs where pf:
      "parse_folder_value lib (clean_value lib (tl (dropWhile (\<lambda>c. c \<noteq> CHR '':'') line))) = (p, fs)"
      by (cases "parse_folder_value lib (clean_value lib (tl (dropWhile (\<lambda>c. c \<noteq> CHR '':'') line)))")
    with parse_folder_value_path
      [of lib "clean_value lib (tl (dropWhile (\<lambda>c. c \<noteq> CHR '':'') line))"]
    have "p \<noteq> []" by simp
    with assms dash True pf show ?thesis
      by (simp add: process_line_def Let_def split: option.splits)
  qed
qed

lemma foldl_process_line_paths:
  "\<forall>f \<in> set (folders acct). path f \<noteq> [] \<Longrightarrow>
   \<forall>f \<in> set (folders (foldl (\<lambda>acct line. process_line lib line acct) acct ls)). path f \<noteq> []"
proof (induction ls arbitrary: acct)
  case Nil
  then show ?case by simp
next
  case (Cons l ls)
  from Cons.prems have "\<forall>f \<in> set (folders (process_line lib l acct)). path f \<noteq> []"
    by (rule process_line_paths)
  from Cons.IH [OF this] show ?case by simp
qed

lemma scan_lines_paths: "\<forall>f \<in> set (folders (scan_lines lib first rest)). path f \<noteq> []"
  unfolding scan_lines_def by (rule foldl_process_line_paths) simp

lemma parse_block_cases:
  "case block_lines lib block of
     [] \<Rightarrow> parse_block lib block = None
   | first # rest \<Rightarrow>
       (let s = scan_lines lib first rest in
        if host s = None \<or> username s = None \<or> password s = None
        then parse_block lib block = None
        else \<exists>a. parse_block lib block = Some a \<and> name a = name s \<and> host a = host s \<and>
                 username a = username s \<and> password a = password s \<and>
                 folders a = (if folders s = []
                              then [\<lparr>label = ''Root'', path = ''/'', filters = None\<rparr>]
                              else folders s))"
  by (auto simp: parse_block_def Let_def split: list.splits)

lemma parse_block_Some:
  assumes "parse_block lib block = Some a"
  shows "host a \<noteq> None \<and> username a \<noteq> None \<and> password a \<noteq> None \<and> folders a \<noteq> [] \<and>
         (\<forall>f \<in> set (folders a). path f \<noteq> [])"
proof -
  from assms obtain first rest where l: "block_lines lib block = first # rest"
    by (auto simp: parse_block_def split: list.splits)
  from assms l scan_lines_paths [of lib first rest] show ?thesis
    by (auto simp: parse_block_def Let_def split: if_splits)
qed

lemma foldl_configs:
  "map Some (foldl (\<lambda>configs block.
              case parse_block lib block of None \<Rightarrow> configs | Some acct \<Rightarrow> configs @ [acct])
       configs blocks) =
   map Some configs @ filter (\<lambda>r. r \<noteq> None) (map (parse_block lib) blocks)"
  by (induction blocks arbitrary: configs) (auto split: option.splits)

lemma load_as_filter:
  "map Some (load_multiple_configs_from_file lib content) =
   filter (\<lambda>r. r \<noteq> None) (map (parse_block lib) (re_split [] 0 content))"
  unfolding load_multiple_configs_from_file_def by (subst foldl_configs) simp

text \<open>
  Claim C7. The accounts returned by \<open>load_multiple_configs_from_file\<close> are, in order,
  what the blocks of the file yield. A block without lines, or whose lines leave the host,
  the user name or the password unset, yields nothing; any other block yields its
  account, with the one folder \<open>Root\<close> of path \<open>/\<close> when its lines defined no folder and
  with the folders they defined otherwise. Hence every returned account has a host, a user
  name and a password, has at least one folder, and each of its folders has a non-empty
  path.
\<close>

theorem loaded_accounts_complete:
  "map Some (load_multiple_configs_from_file lib content) =
     filter (\<lambda>r. r \<noteq> None) (map (parse_block lib) (re_split [] 0 content)) \<and>
   (\<forall>block.
      case block_lines lib block of
        [] \<Rightarrow> parse_block lib block = None
      | first # rest \<Rightarrow>
          (let s = scan_lines lib first rest in
           if host s = None \<or> username s = None \<or> password s = None
           then parse_block lib block = None
           else \<exists>a. parse_block lib block = Some a \<and> name a = name s \<and> host a = host s \<and>
                    username a = username s \<and> password a = password s \<and>
                    folders a = (if folders s = []
                                 then [\<lparr>label = ''Root'', path = ''/'', filters = None\<rparr>]
                                 else folders s))) \<and>
   (\<forall>a \<in> set (load_multiple_configs_from_file lib content).
      host a \<noteq> None \<and> username a \<noteq> None \<and> password a \<noteq> None \<and> folders a \<noteq> [] \<and>
      (\<forall>f \<in> set (folders a). path f \<noteq> []))"
proof -
  have 3: "host a \<noteq> None \<and> username a \<noteq> None \<and> password a \<noteq> None \<and> folders a \<noteq> [] \<and>
      (\<forall>f \<in> set (folders a). path f \<noteq> [])"
    if "a \<in> set (load_multiple_configs_from_file lib content)" for a
  proof -
    from that have "Some a \<in> set (map Some (load_multiple_configs_from_file lib content))"
      by simp
    then have "Some a \<in> set (map (parse_block lib) (re_split [] 0 content))"
      unfolding load_as_filter by simp
    then obtain block where "parse_block lib block = Some a" by auto
    then show ?thesis by (rule parse_block_Some)
  qed
  from load_as_filter parse_block_cases 3 show ?thesis by blast
qed


theorem loaded_accounts_complete_witness:
  "load_multiple_configs_from_file ascii_lib example_content = [acme_loaded, globex_loaded] \<and>
   list_all (\<lambda>a. host a \<noteq> None \<and> username a \<noteq> None \<and> password a \<noteq> None \<and>
                 folders a \<noteq> [] \<and> list_all (\<lambda>f. path f \<noteq> []) (folders a))
     [acme_loaded, globex_loaded] \<and>
   folders globex_loaded = [\<lparr>label = ''Root'', path = ''/'', filters = None\<rparr>]"
proof -
  have e: "load_multiple_configs_from_file ascii_lib example_content =
           [acme_loaded, globex_loaded]"
    by code_simp
  from loaded_accounts_complete [of ascii_lib example_content]
  have "\<forall>a \<in> set (load_multiple_configs_from_file ascii_lib example_content).
      host a \<noteq> None \<and> username a \<noteq> None \<and> password a \<noteq> None \<and> folders a \<noteq> [] \<and>
      (\<forall>f \<in> set (folders a). path f \<noteq> [])"
    by blast
  then have "list_all (\<lambda>a. host a \<noteq> None \<and> username a \<noteq> None \<and> password a \<noteq> None \<and>
                 folders a \<noteq> [] \<and> list_all (\<lambda>f. path f \<noteq> []) (folders a))
     [acme_loaded, globex_loaded]"
    unfolding e by (simp only: list_all_iff)
  moreover have "folders globex_loaded = [\<lparr>label = ''Root'', path = ''/'', filters = None\<rparr>]"
    by (simp add: globex_loaded_def)
  ultimately show ?thesis using e by simp
qed

end
